theory Spec2Isabelle
  imports Main
begin

section \<open>Data model\<close>

text \<open>
  The conversion of a parser analysis into Universal Dependencies, as written in
  \<^verbatim>\<open>src/main.py\<close>.

  A \<^verbatim>\<open>WordNode\<close> object lives in exactly one \<^verbatim>\<open>SentenceNode.word_nodes\<close> list, and every
  reference to a word that the program stores or compares (\<^verbatim>\<open>governor_word\<close>,
  \<^verbatim>\<open>ner_head_word\<close>, the members of \<^verbatim>\<open>ner['words']\<close>) is taken from that same list. A
  reference is therefore modelled as the 0-based position of the object in the list,
  Python's \<^verbatim>\<open>None\<close> as \<open>None\<close>, and object identity (\<^verbatim>\<open>==\<close> on nodes, \<^verbatim>\<open>in\<close> on a list of
  nodes) as equality of positions. The sentence is the store: an assignment to a field of
  a node is an update of the list at the node's position.

  Reading an attribute of \<^verbatim>\<open>None\<close> raises \<^verbatim>\<open>AttributeError\<close>, indexing a list out of range
  raises \<^verbatim>\<open>IndexError\<close>; nothing in the program catches either, so a raised exception is
  the result of the whole call. \<open>NonTermination\<close> is the result of the one unbounded loop
  of the program when it does not return.
\<close>

datatype failure = AttributeError | IndexError | NonTermination

record ner_info =
  ner_text :: string
  ner_words :: "nat list"
  ner_span :: "int \<times> int"
  ner_type :: string

text \<open>
  The fields of \<^verbatim>\<open>WordNode\<close>; \<^verbatim>\<open>text\<close> and \<^verbatim>\<open>lemma\<close> are \<open>wn_text\<close> and \<open>wn_lemma\<close>. The back
  reference \<^verbatim>\<open>sentence_node\<close> is the list the node stands in. The class attribute
  \<^verbatim>\<open>all_wn\<close>, a registry that is appended to and never read, is left out; the counter
  \<^verbatim>\<open>wn_count\<close> is threaded through the conversion.
\<close>

record word_node =
  wn_id :: nat
  index :: int
  index_span :: "int \<times> int"
  wn_text :: string
  wn_lemma :: string
  upos :: string
  features :: "(string \<times> string) list"
  span :: "int \<times> int"
  ner :: "ner_info option"
  ner_head_word :: "nat option"
  dependency_relation :: string
  governor :: int
  governor_word :: "nat option"

record sentence_node =
  word_nodes :: "word_node list"
  sn_text :: string

record ud_doc =
  sentences :: "sentence_node list"

text \<open>
  The parser's side, as far as the program reads it: of a token \<^verbatim>\<open>i\<close> (its index in the
  parent document), \<^verbatim>\<open>text\<close>, \<^verbatim>\<open>lemma_\<close>, \<^verbatim>\<open>pos_\<close>, \<^verbatim>\<open>dep_\<close>, \<^verbatim>\<open>head.i\<close>, \<^verbatim>\<open>idx\<close> and
  \<^verbatim>\<open>morph.to_dict()\<close>; of an entity span \<^verbatim>\<open>text\<close>, \<^verbatim>\<open>start_char\<close>, \<^verbatim>\<open>end_char\<close> and \<^verbatim>\<open>label_\<close>;
  of a sentence (a span of the document, or the document itself) its text, its tokens
  and its entities; of a document, in addition, its sentences.
\<close>

record spacy_token =
  tok_i :: int
  tok_text :: string
  tok_lemma :: string
  tok_pos :: string
  tok_dep :: string
  tok_head_i :: int
  tok_idx :: int
  tok_morph :: "(string \<times> string) list"

record spacy_span =
  ent_text :: string
  start_char :: int
  end_char :: int
  ent_label :: string

record spacy_sent =
  sp_text :: string
  sp_tokens :: "spacy_token list"
  sp_ents :: "spacy_span list"

record spacy_doc =
  whole :: spacy_sent
  sents :: "spacy_sent list"

section \<open>Shared helpers of the rule engine\<close>

text \<open>The two assignments \<^verbatim>\<open>x.governor = y.index; x.governor_word = y\<close>, and a relabel.\<close>

definition set_governor :: "word_node list \<Rightarrow> nat \<Rightarrow> nat \<Rightarrow> word_node list" where
  "set_governor ws x y = ws[x := (ws ! x)\<lparr>governor := index (ws ! y), governor_word := Some y\<rparr>]"

definition set_relation :: "word_node list \<Rightarrow> nat \<Rightarrow> string \<Rightarrow> word_node list" where
  "set_relation ws x r = ws[x := (ws ! x)\<lparr>dependency_relation := r\<rparr>]"

text \<open>\<^verbatim>\<open>find_governed\<close> and \<^verbatim>\<open>find_subj\<close>: the first node of the sentence that passes the test.\<close>

definition find_governed :: "word_node list \<Rightarrow> nat \<Rightarrow> string \<Rightarrow> nat option" where
  "find_governed ws g dep =
     List.find (\<lambda>k. governor_word (ws ! k) = Some g \<and> dependency_relation (ws ! k) = dep)
       [0..<length ws]"

definition subj_relations :: "string list" where
  "subj_relations =
     [''nsubj'', ''csubj'', ''nsubj:pass'', ''csubj:pass'', ''nsubj:outer'', ''csubj:outer'']"

definition find_subj :: "word_node list \<Rightarrow> nat \<Rightarrow> nat option" where
  "find_subj ws g =
     List.find (\<lambda>k. governor_word (ws ! k) = Some g
                    \<and> dependency_relation (ws ! k) \<in> set subj_relations)
       [0..<length ws]"

definition redirectable :: "string list" where
  "redirectable =
     [''prep'', ''attr'', ''advcl'', ''advmod'', ''acomp'', ''xcomp'', ''dep'', ''acl'',
      ''nsubj'', ''obj'', ''csubj'', ''ccomp'', ''mark'', ''cop'', ''npadvmod'', ''conj'',
      ''prataxis'', ''punct'', ''cc'', ''nsubj:outer'', ''csubj:outer'']"

text \<open>\<^verbatim>\<open>redirect_dependants\<close>: the loop over the sentence, one node after the other.\<close>

fun redirect_loop :: "nat \<Rightarrow> nat \<Rightarrow> nat list \<Rightarrow> word_node list \<Rightarrow> word_node list" where
  "redirect_loop from_node to_node [] ws = ws"
| "redirect_loop from_node to_node (k # ks) ws =
     redirect_loop from_node to_node ks
       (if k = from_node \<or> k = to_node then ws
        else if governor_word (ws ! k) = Some from_node
                \<and> dependency_relation (ws ! k) \<in> set redirectable
        then set_governor ws k to_node
        else ws)"

definition redirect_dependants :: "word_node list \<Rightarrow> nat \<Rightarrow> nat \<Rightarrow> word_node list" where
  "redirect_dependants ws from_node to_node =
     redirect_loop from_node to_node [0..<length ws] ws"

text \<open>
  \<^verbatim>\<open>make_copula\<close> returns the sentence after the call and the Boolean it returns. The
  assignments are made in the source's order, each reading the state the one before left.
\<close>

definition make_copula :: "word_node list \<Rightarrow> nat \<Rightarrow> nat \<Rightarrow> word_node list \<times> bool" where
  "make_copula ws head_node be_node =
     (if (case find_governed ws be_node ''expl'' of
            None \<Rightarrow> False
          | Some expl_node \<Rightarrow> wn_lemma (ws ! expl_node) = ''there'')
      then (ws, False)
      else
        let ws1 = ws[head_node := (ws ! head_node)
                      \<lparr>governor := governor (ws ! be_node),
                       governor_word := governor_word (ws ! be_node),
                       dependency_relation := dependency_relation (ws ! be_node)\<rparr>];
            ws2 = ws1[be_node := (ws1 ! be_node)
                      \<lparr>governor := index (ws1 ! head_node),
                       governor_word := Some head_node,
                       dependency_relation := ''cop'',
                       upos := ''AUX''\<rparr>]
        in (redirect_dependants ws2 be_node head_node, True))"

text \<open>\<^verbatim>\<open>make_passive\<close>.\<close>

definition make_passive :: "word_node list \<Rightarrow> nat \<Rightarrow> nat \<Rightarrow> word_node list" where
  "make_passive ws be_node verb_node =
     (let (subj_node, rel) =
            (case find_governed ws be_node ''nsubj'' of
               Some s \<Rightarrow> (Some s, ''nsubj:pass'')
             | None \<Rightarrow> (find_governed ws be_node ''csubj'', ''csubj:pass''));
          ws1 = (case subj_node of
                   None \<Rightarrow> ws
                 | Some s \<Rightarrow> ws[s := (ws ! s)
                      \<lparr>governor := index (ws ! verb_node),
                       governor_word := Some verb_node,
                       dependency_relation := rel\<rparr>]);
          ws2 = ws1[verb_node := (ws1 ! verb_node)
                      \<lparr>governor := governor (ws1 ! be_node),
                       governor_word := governor_word (ws1 ! be_node),
                       dependency_relation := dependency_relation (ws1 ! be_node)\<rparr>]
      in ws2[be_node := (ws2 ! be_node)
                      \<lparr>governor := index (ws2 ! verb_node),
                       governor_word := Some verb_node,
                       dependency_relation := ''aux:pass''\<rparr>])"

text \<open>
  \<^verbatim>\<open>prep_chain\<close>. The \<^verbatim>\<open>while\<close> loop climbs the governors labelled \<^verbatim>\<open>prep\<close>; it has no bound,
  and a cycle of \<^verbatim>\<open>prep\<close> governors keeps it running for ever: the loop's value is then
  \<open>None\<close>. The head returned for an \<^verbatim>\<open>iobj\<close> or \<^verbatim>\<open>agent\<close> governor is that governor's
  \<^verbatim>\<open>governor_word\<close>, which may be \<^verbatim>\<open>None\<close>.
\<close>

partial_function (option) prep_loop ::
  "word_node list \<Rightarrow> nat option \<Rightarrow> nat list \<Rightarrow> (failure + nat option \<times> nat list) option" where
  "prep_loop ws x prep_nodes =
     (case x of
        None \<Rightarrow> Some (Inl AttributeError)
      | Some xi \<Rightarrow>
          if dependency_relation (ws ! xi) = ''prep''
          then prep_loop ws (governor_word (ws ! xi)) (prep_nodes @ [xi])
          else Some (Inr (Some xi, prep_nodes)))"

declare prep_loop.simps [code]

definition prep_chain :: "word_node list \<Rightarrow> nat \<Rightarrow> failure + nat option \<times> nat list" where
  "prep_chain ws word_node =
     (case governor_word (ws ! word_node) of
        None \<Rightarrow> Inl AttributeError
      | Some x \<Rightarrow>
          if dependency_relation (ws ! x) \<in> set [''iobj'', ''agent'']
          then Inr (governor_word (ws ! x), [x])
          else (case prep_loop ws (Some x) [] of
                  None \<Rightarrow> Inl NonTermination
                | Some r \<Rightarrow> r))"

section \<open>The rules, one per dependency label\<close>

text \<open>
  A rule takes the sentence and the position of the word it is called on, and returns
  the failure it raises, or the sentence it leaves and the lines it prints.
\<close>

type_synonym rule_result = "failure + word_node list \<times> string list"

definition nominal :: "string list" where
  "nominal = [''NOUN'', ''PRON'', ''PROPN'']"

definition aux_to_ud :: "word_node list \<Rightarrow> nat \<Rightarrow> rule_result" where
  "aux_to_ud ws w =
     (if upos (ws ! w) = ''PART'' then
        let ws1 = set_relation ws w ''mark'' in
        (case governor_word (ws1 ! w) of
           None \<Rightarrow> Inl AttributeError
         | Some g \<Rightarrow>
             Inr (if dependency_relation (ws1 ! g) = ''acl:relcl''
                  then set_relation ws1 g ''acl'' else ws1, []))
      else Inr (ws, []))"

definition oprd_to_ud :: "word_node list \<Rightarrow> nat \<Rightarrow> rule_result" where
  "oprd_to_ud ws w =
     Inr (set_relation ws w (if upos (ws ! w) \<in> set nominal then ''obj'' else ''advcl''), [])"

definition amod_to_ud :: "word_node list \<Rightarrow> nat \<Rightarrow> rule_result" where
  "amod_to_ud ws w =
     (case governor_word (ws ! w) of
        None \<Rightarrow> Inl AttributeError
      | Some g \<Rightarrow> Inr (if upos (ws ! g) = ''VERB'' then set_relation ws w ''xcomp'' else ws, []))"

definition nmod_to_ud :: "word_node list \<Rightarrow> nat \<Rightarrow> rule_result" where
  "nmod_to_ud ws w =
     (if wn_lemma (ws ! w) = ''$'' then
        (case governor_word (ws ! w) of
           None \<Rightarrow> Inl AttributeError
         | Some g \<Rightarrow>
             if upos (ws ! g) = ''NUM'' then
               let ws1 = ws[w := (ws ! w)
                             \<lparr>dependency_relation := dependency_relation (ws ! g),
                              governor := governor (ws ! g),
                              governor_word := governor_word (ws ! g)\<rparr>];
                   ws2 = ws1[g := (ws1 ! g)
                             \<lparr>dependency_relation := ''nummod'',
                              governor := index (ws1 ! w),
                              governor_word := Some w\<rparr>]
               in Inr (redirect_dependants ws2 g w, [])
             else Inr (ws, []))
      else Inr (ws, []))"

definition nummod_to_ud :: "word_node list \<Rightarrow> nat \<Rightarrow> rule_result" where
  "nummod_to_ud ws w =
     (case governor_word (ws ! w) of
        None \<Rightarrow> Inl AttributeError
      | Some g \<Rightarrow>
          Inr (if upos (ws ! g) = ''NOUN'' \<and> index (ws ! g) = index (ws ! w) - 1
               then set_relation ws w ''nmod'' else ws, []))"

definition advcl_to_ud :: "word_node list \<Rightarrow> nat \<Rightarrow> rule_result" where
  "advcl_to_ud ws w =
     (case governor_word (ws ! w) of
        None \<Rightarrow> Inl AttributeError
      | Some g \<Rightarrow>
          if wn_lemma (ws ! g) = ''be'' \<and> find_subj ws w \<noteq> None then
            let ws1 = fst (make_copula ws w g) in
            (case find_governed ws1 w ''csubj'' of
               None \<Rightarrow> Inr (ws1, [])
             | Some c \<Rightarrow>
                 Inr (if upos (ws1 ! c) = ''VERB''
                      then set_relation ws1 c ''csubj:outer'' else ws1, []))
          else if upos (ws ! g) \<in> set nominal \<and> find_governed ws g ''cop'' = None
          then Inr (set_relation ws w ''acl'', [])
          else Inr (ws, []))"

definition comp_to_ud :: "word_node list \<Rightarrow> nat \<Rightarrow> rule_result" where
  "comp_to_ud ws w =
     (case governor_word (ws ! w) of
        None \<Rightarrow> Inl AttributeError
      | Some g \<Rightarrow>
          let subj_node = find_subj ws g in
          if wn_lemma (ws ! g) = ''be'' then
            let ws1 = fst (make_copula ws w g) in
            Inr (case subj_node of
                   None \<Rightarrow> ws1
                 | Some s \<Rightarrow> set_relation ws1 s (dependency_relation (ws1 ! s) @ '':outer''),
                 [])
          else if find_governed ws g ''cop'' \<noteq> None then
            (case subj_node of
               None \<Rightarrow> Inr (ws, [])
             | Some s \<Rightarrow>
                 if wn_lemma (ws ! s) = ''it''
                 then Inr (set_relation (set_relation ws s ''expl'') w ''csubj'', [])
                 else Inr (ws, []))
          else Inr (ws, []))"

text \<open>The loop that closes \<^verbatim>\<open>pobj_to_ud\<close>, over the prepositions of the chain.\<close>

fun prep_fix :: "nat \<Rightarrow> nat list \<Rightarrow> word_node list \<Rightarrow> word_node list" where
  "prep_fix w [] ws = ws"
| "prep_fix w (p # ps) ws =
     (let ws1 = set_relation (set_governor ws p w) p ''case'' in
      prep_fix w ps
        (case find_governed ws1 p ''advmod'' of
           None \<Rightarrow> ws1
         | Some adv_node \<Rightarrow> set_governor ws1 adv_node w))"

definition pobj_to_ud :: "word_node list \<Rightarrow> nat \<Rightarrow> rule_result" where
  "pobj_to_ud ws w =
     (case prep_chain ws w of
        Inl e \<Rightarrow> Inl e
      | Inr (gov_node, prep_nodes) \<Rightarrow>
          (case prep_nodes of
             [] \<Rightarrow> Inr (ws, [''pobj without preps, word: '' @ wn_text (ws ! w)])
           | p # _ \<Rightarrow>
               (case gov_node of
                  None \<Rightarrow> Inl AttributeError
                | Some g \<Rightarrow>
                    let (ws1, made) =
                          (if wn_lemma (ws ! g) = ''be'' then make_copula ws w g else (ws, False))
                    in
                    if \<not> made then
                      let r = dependency_relation (ws1 ! p) in
                      (case (if r = ''prep''
                             then Some (if upos (ws1 ! g) \<in> set nominal then ''nmod'' else ''obl'')
                             else if r = ''iobj'' then Some ''obl''
                             else if r = ''agent'' then Some ''obl:agent''
                             else None) of
                         None \<Rightarrow>
                           Inr (ws1, [''Unknown dep from PREP in: '' @ wn_text (ws1 ! g) @ '' <-''
                                      @ r @ ''- '' @ wn_text (ws1 ! p) @ '' <-pobj- ''
                                      @ wn_text (ws1 ! w)])
                       | Some l \<Rightarrow>
                           Inr (prep_fix w prep_nodes
                                  (set_governor (set_relation ws1 w l) w g), []))
                    else Inr (prep_fix w prep_nodes ws1, []))))"

definition pcomp_to_ud :: "word_node list \<Rightarrow> nat \<Rightarrow> rule_result" where
  "pcomp_to_ud ws w =
     (case governor_word (ws ! w) of
        None \<Rightarrow> Inl AttributeError
      | Some p \<Rightarrow>
          if upos (ws ! w) = ''ADP'' \<and> upos (ws ! p) = ''SCONJ''
          then Inr (set_relation ws w ''fixed'', [])
          else
            (case governor_word (ws ! p) of
               None \<Rightarrow> Inl AttributeError
             | Some g \<Rightarrow>
                 if dependency_relation (ws ! p) \<noteq> ''prep'' then
                   Inr (ws, [''No prep dependency in: '' @ wn_text (ws ! g) @ '' <-''
                             @ dependency_relation (ws ! p) @ ''- '' @ wn_text (ws ! p)
                             @ '' <-pcomp- '' @ wn_text (ws ! w)])
                 else
                   let ws1 = (if wn_lemma (ws ! g) = ''be'' then fst (make_copula ws w g)
                              else set_governor
                                     (set_governor (set_relation ws w ''advcl'') w g) p w);
                       ws2 = set_relation ws1 p
                               (if upos (ws1 ! p) = ''SCONJ'' then ''mark'' else ''case'')
                   in Inr (redirect_dependants ws2 p w, [])))"

definition attr_to_ud :: "word_node list \<Rightarrow> nat \<Rightarrow> rule_result" where
  "attr_to_ud ws w =
     (case governor_word (ws ! w) of
        None \<Rightarrow> Inl AttributeError
      | Some b \<Rightarrow>
          if wn_lemma (ws ! b) \<noteq> ''be'' then
            Inr (ws, [''Dep attr used with something other than to be: '' @ wn_text (ws ! b)
                      @ '' <-attr- '' @ wn_text (ws ! w)])
          else
            (case find_governed ws b ''expl'' of
               Some subj_node \<Rightarrow> Inr (set_relation ws w ''nsubj'', [])
             | None \<Rightarrow> Inr (fst (make_copula ws w b), [])))"

definition acomp_to_ud :: "word_node list \<Rightarrow> nat \<Rightarrow> rule_result" where
  "acomp_to_ud ws w =
     (case governor_word (ws ! w) of
        None \<Rightarrow> Inl AttributeError
      | Some acomp_node \<Rightarrow>
          if wn_lemma (ws ! acomp_node) = ''be'' then
            (if upos (ws ! w) = ''VERB'' \<and> map_of (features (ws ! w)) ''Aspect'' = Some ''Perf''
             then Inr (make_passive ws acomp_node w, [])
             else Inr (fst (make_copula ws w acomp_node), []))
          else Inr (set_relation ws w ''xcomp'', []))"

definition advmod_to_ud :: "word_node list \<Rightarrow> nat \<Rightarrow> rule_result" where
  "advmod_to_ud ws w =
     (if upos (ws ! w) = ''SCONJ'' then
        (case governor_word (ws ! w) of
           None \<Rightarrow> Inl AttributeError
         | Some g \<Rightarrow>
             if dependency_relation (ws ! g) = ''advcl''
             then Inr (set_relation ws w ''mark'', [])
             else Inr (ws[w := (ws ! w)\<lparr>upos := ''ADV''\<rparr>], []))
      else Inr (ws, []))"

definition conj_to_ud :: "word_node list \<Rightarrow> nat \<Rightarrow> rule_result" where
  "conj_to_ud ws w =
     (case governor_word (ws ! w) of
        None \<Rightarrow> Inl AttributeError
      | Some g \<Rightarrow>
          let conj_node = find_governed ws g ''cc'';
              ws1 = (case conj_node of None \<Rightarrow> ws | Some c \<Rightarrow> set_governor ws c w);
              ws2 = (if upos (ws1 ! g) = ''VERB'' \<and> upos (ws1 ! w) \<in> set nominal then
                       (case find_governed ws1 w ''nsubj'' of
                          None \<Rightarrow> ws1
                        | Some n \<Rightarrow>
                            let a = set_governor (set_relation ws1 n ''conj'') n g;
                                b = set_governor (set_relation a w ''orphan'') w n
                            in (case conj_node of None \<Rightarrow> b | Some c \<Rightarrow> set_governor b c n))
                     else ws1)
          in if dependency_relation (ws2 ! g) = ''conj'' then
               (case governor_word (ws2 ! g) of
                  None \<Rightarrow> Inl AttributeError
                | Some gov_gov_node \<Rightarrow> Inr (set_governor ws2 w gov_gov_node, []))
             else Inr (ws2, []))"

definition npadvmod_to_ud :: "word_node list \<Rightarrow> nat \<Rightarrow> rule_result" where
  "npadvmod_to_ud ws w =
     (case governor_word (ws ! w) of
        None \<Rightarrow> Inl AttributeError
      | Some g \<Rightarrow>
          (case (if dependency_relation (ws ! g) = ''obl:npmod''
                 then governor_word (ws ! g) else Some g) of
             None \<Rightarrow> Inl AttributeError
           | Some gov_node \<Rightarrow>
               Inr (set_governor (set_relation ws w ''obl:npmod'') w gov_node, [])))"

definition dep_to_ud :: "word_node list \<Rightarrow> nat \<Rightarrow> rule_result" where
  "dep_to_ud ws w =
     (case governor_word (ws ! w) of
        None \<Rightarrow> Inl AttributeError
      | Some g \<Rightarrow> Inr (if upos (ws ! g) = ''VERB'' then set_relation ws w ''ccomp'' else ws, []))"

section \<open>The rule engine\<close>

text \<open>The body of the loop of \<^verbatim>\<open>spacy_to_ud\<close>: the dispatch on the word's current label.\<close>

definition apply_rule :: "word_node list \<Rightarrow> nat \<Rightarrow> rule_result" where
  "apply_rule ws w =
     (let r = dependency_relation (ws ! w) in
      if r = ''aux'' then aux_to_ud ws w
      else if r = ''oprd'' then oprd_to_ud ws w
      else if r = ''amod'' then amod_to_ud ws w
      else if r = ''nmod'' then nmod_to_ud ws w
      else if r = ''nummod'' then nummod_to_ud ws w
      else if r = ''advcl'' then advcl_to_ud ws w
      else if r = ''pobj'' then pobj_to_ud ws w
      else if r = ''pcomp'' then pcomp_to_ud ws w
      else if r \<in> set [''xcomp'', ''ccomp''] then comp_to_ud ws w
      else if r = ''attr'' then attr_to_ud ws w
      else if r = ''acomp'' then acomp_to_ud ws w
      else if r = ''advmod'' then advmod_to_ud ws w
      else if r = ''npadvmod'' then npadvmod_to_ud ws w
      else if r = ''conj'' then conj_to_ud ws w
      else if r = ''dep'' then dep_to_ud ws w
      else Inr (ws, []))"

fun rule_pass :: "nat list \<Rightarrow> word_node list \<Rightarrow> rule_result" where
  "rule_pass [] ws = Inr (ws, [])"
| "rule_pass (k # ks) ws =
     (case apply_rule ws k of
        Inl e \<Rightarrow> Inl e
      | Inr (ws1, out1) \<Rightarrow>
          (case rule_pass ks ws1 of
             Inl e \<Rightarrow> Inl e
           | Inr (ws2, out2) \<Rightarrow> Inr (ws2, out1 @ out2)))"

text \<open>\<^verbatim>\<open>fix_advmod_cop\<close>: its loop body, and the loop over the reversed sentence.\<close>

definition fix_advmod_step :: "word_node list \<Rightarrow> nat \<Rightarrow> failure + word_node list" where
  "fix_advmod_step ws k =
     (if dependency_relation (ws ! k) = ''advmod'' then
        (case governor_word (ws ! k) of
           None \<Rightarrow> Inl AttributeError
         | Some g \<Rightarrow>
             if wn_lemma (ws ! g) = ''be'' \<and> dependency_relation (ws ! g) \<noteq> ''cop''
             then Inr (fst (make_copula ws k g))
             else Inr ws)
      else Inr ws)"

fun fix_advmod_loop :: "nat list \<Rightarrow> word_node list \<Rightarrow> failure + word_node list" where
  "fix_advmod_loop [] ws = Inr ws"
| "fix_advmod_loop (k # ks) ws =
     (case fix_advmod_step ws k of
        Inl e \<Rightarrow> Inl e
      | Inr ws1 \<Rightarrow> fix_advmod_loop ks ws1)"

definition fix_advmod_cop :: "word_node list \<Rightarrow> failure + word_node list" where
  "fix_advmod_cop ws = fix_advmod_loop (rev [0..<length ws]) ws"

definition spacy_to_ud :: "word_node list \<Rightarrow> rule_result" where
  "spacy_to_ud ws =
     (case rule_pass [0..<length ws] ws of
        Inl e \<Rightarrow> Inl e
      | Inr (ws1, out1) \<Rightarrow>
          (case fix_advmod_cop ws1 of
             Inl e \<Rightarrow> Inl e
           | Inr ws2 \<Rightarrow> Inr (ws2, out1)))"

section \<open>Entity alignment\<close>

definition find_span_words :: "word_node list \<Rightarrow> spacy_span \<Rightarrow> nat list" where
  "find_span_words ws spacy_span =
     filter (\<lambda>k. fst (span (ws ! k)) \<ge> start_char spacy_span
                \<and> snd (span (ws ! k)) \<le> end_char spacy_span)
       [0..<length ws]"

text \<open>The second loop of \<^verbatim>\<open>add_entities\<close>: the back reference of every member but the head.\<close>

fun ner_head_loop :: "nat option \<Rightarrow> nat list \<Rightarrow> word_node list \<Rightarrow> word_node list" where
  "ner_head_loop phrase_head_word [] ws = ws"
| "ner_head_loop phrase_head_word (k # ks) ws =
     ner_head_loop phrase_head_word ks
       (if Some k \<noteq> phrase_head_word
        then ws[k := (ws ! k)\<lparr>ner_head_word := phrase_head_word\<rparr>]
        else ws)"

text \<open>
  The body of the loop of \<^verbatim>\<open>add_entities\<close>, for one entity span. The first loop stops at
  the first member it annotates, and assigns nothing before it.
\<close>

definition add_entity :: "word_node list \<Rightarrow> spacy_span \<Rightarrow> word_node list" where
  "add_entity ws spacy_span =
     (let span_word_nodes = find_span_words ws spacy_span;
          phrase_head_word =
            List.find (\<lambda>k. case governor_word (ws ! k) of
                              None \<Rightarrow> True
                            | Some g \<Rightarrow> g \<notin> set span_word_nodes)
              span_word_nodes;
          ws1 = (case phrase_head_word of
                   None \<Rightarrow> ws
                 | Some h \<Rightarrow>
                     ws[h := (ws ! h)
                          \<lparr>ner := Some \<lparr>ner_text = ent_text spacy_span,
                                        ner_words = span_word_nodes,
                                        ner_span = (start_char spacy_span, end_char spacy_span),
                                        ner_type = ent_label spacy_span\<rparr>\<rparr>])
      in ner_head_loop phrase_head_word span_word_nodes ws1)"

fun add_entities :: "word_node list \<Rightarrow> spacy_span list \<Rightarrow> word_node list" where
  "add_entities ws [] = ws"
| "add_entities ws (spacy_span # rest) = add_entities (add_entity ws spacy_span) rest"

section \<open>The conversion\<close>

text \<open>
  The constructor of \<^verbatim>\<open>WordNode\<close>. It leaves \<^verbatim>\<open>lemma\<close>, \<^verbatim>\<open>upos\<close>, \<^verbatim>\<open>span\<close>,
  \<^verbatim>\<open>dependency_relation\<close> and \<^verbatim>\<open>governor\<close> at \<^verbatim>\<open>None\<close>; \<^verbatim>\<open>spacy_to_ud_token\<close>, called on the new
  node at once, assigns each of them before anything reads it, so the fields carry no
  option and the constructor fills them with an empty value.
\<close>

definition new_WordNode :: "nat \<Rightarrow> int \<Rightarrow> string \<Rightarrow> word_node" where
  "new_WordNode wn_count ind txt =
     \<lparr>wn_id = wn_count, index = ind, index_span = (ind, ind), wn_text = txt,
      wn_lemma = [], upos = [], features = [], span = (0, 0), ner = None,
      ner_head_word = None, dependency_relation = [], governor = 0, governor_word = None\<rparr>"

definition dep_dict :: "(string \<times> string) list" where
  "dep_dict =
     [(''dobj'', ''obj''), (''dative'', ''iobj''), (''nsubjpass'', ''nsubj:pass''),
      (''csubjpass'', ''csubj:pass''), (''ROOT'', ''root''), (''auxpass'', ''aux:pass''),
      (''preconj'', ''pre:conj''), (''prt'', ''compound:prt''), (''predet'', ''det:predet''),
      (''poss'', ''nmod:poss''), (''relcl'', ''acl:relcl''), (''neg'', ''advmod''),
      (''quantmod'', ''compound''), (''parataxis'', ''prataxis'')]"

definition spacy_to_ud_token :: "word_node \<Rightarrow> spacy_token \<Rightarrow> word_node" where
  "spacy_to_ud_token word_node spacy_token =
     word_node
       \<lparr>upos := tok_pos spacy_token,
        wn_lemma := tok_lemma spacy_token,
        dependency_relation :=
          (case map_of dep_dict (tok_dep spacy_token) of
             None \<Rightarrow> tok_dep spacy_token
           | Some dep \<Rightarrow> dep),
        governor :=
          (if tok_head_i spacy_token = tok_i spacy_token then 0
           else tok_head_i spacy_token + 1),
        span := (tok_idx spacy_token, tok_idx spacy_token + int (length (tok_text spacy_token))),
        features := tok_morph spacy_token\<rparr>"

text \<open>\<^verbatim>\<open>add_governor_word\<close>: \<^verbatim>\<open>sent.word_nodes[gov_ind - 1]\<close> raises past the end of the list.\<close>

fun add_governor_loop :: "nat list \<Rightarrow> word_node list \<Rightarrow> failure + word_node list" where
  "add_governor_loop [] ws = Inr ws"
| "add_governor_loop (k # ks) ws =
     (let gov_ind = governor (ws ! k) in
      if gov_ind > 0 then
        (if gov_ind - 1 < int (length ws)
         then add_governor_loop ks (ws[k := (ws ! k)\<lparr>governor_word := Some (nat (gov_ind - 1))\<rparr>])
         else Inl IndexError)
      else add_governor_loop ks ws)"

definition add_governor_word :: "word_node list \<Rightarrow> failure + word_node list" where
  "add_governor_word ws = add_governor_loop [0..<length ws] ws"

text \<open>The first loop of \<^verbatim>\<open>spacy_to_ud_sentence\<close>; the counter \<^verbatim>\<open>wn_count\<close> grows by one a node.\<close>

fun make_words :: "nat \<Rightarrow> spacy_token list \<Rightarrow> word_node list" where
  "make_words wn_count [] = []"
| "make_words wn_count (spacy_token # rest) =
     spacy_to_ud_token (new_WordNode wn_count (tok_i spacy_token + 1) (tok_text spacy_token))
       spacy_token
     # make_words (Suc wn_count) rest"

text \<open>
  \<^verbatim>\<open>spacy_to_ud_sentence\<close> returns the sentence it appends to the document and the lines
  printed meanwhile.
\<close>

definition spacy_to_ud_sentence :: "nat \<Rightarrow> spacy_sent \<Rightarrow> failure + sentence_node \<times> string list" where
  "spacy_to_ud_sentence wn_count spacy_sent =
     (case add_governor_word (make_words wn_count (sp_tokens spacy_sent)) of
        Inl e \<Rightarrow> Inl e
      | Inr ws1 \<Rightarrow>
          (case spacy_to_ud ws1 of
             Inl e \<Rightarrow> Inl e
           | Inr (ws2, out) \<Rightarrow>
               Inr (\<lparr>word_nodes = add_entities ws2 (sp_ents spacy_sent),
                     sn_text = sp_text spacy_sent\<rparr>, out)))"

fun convert_sentences ::
  "nat \<Rightarrow> spacy_sent list \<Rightarrow> failure + sentence_node list \<times> string list" where
  "convert_sentences wn_count [] = Inr ([], [])"
| "convert_sentences wn_count (spacy_sentence # rest) =
     (case spacy_to_ud_sentence wn_count spacy_sentence of
        Inl e \<Rightarrow> Inl e
      | Inr (s, out1) \<Rightarrow>
          (case convert_sentences (wn_count + length (sp_tokens spacy_sentence)) rest of
             Inl e \<Rightarrow> Inl e
           | Inr (ss, out2) \<Rightarrow> Inr (s # ss, out1 @ out2)))"

text \<open>
  \<^verbatim>\<open>spacy_to_ud_doc\<close>, from the value \<open>wn_count\<close> of the counter at the call: the document it
  returns and the lines printed, or the exception raised.
\<close>

definition spacy_to_ud_doc :: "nat \<Rightarrow> spacy_doc \<Rightarrow> failure + ud_doc \<times> string list" where
  "spacy_to_ud_doc wn_count sp_doc =
     (let spacy_sentences = (if sents sp_doc = [] then [whole sp_doc] else sents sp_doc) in
      case convert_sentences wn_count spacy_sentences of
        Inl e \<Rightarrow> Inl e
      | Inr (ss, out) \<Rightarrow> Inr (\<lparr>sentences = ss\<rparr>, out))"

section \<open>Text renderings\<close>

text \<open>
  \<^verbatim>\<open>str\<close> of an integer and of a list of integers, and the feature string the two
  printers build: the pairs \<^verbatim>\<open>name=value|\<close> in the mapping's order, \<^verbatim>\<open>strip('|')\<close>, and
  \<^verbatim>\<open>None\<close> for what is empty then.
\<close>

function str_nat :: "nat \<Rightarrow> string" where
  "str_nat n =
     (if n < 10 then [char_of (48 + n)] else str_nat (n div 10) @ [char_of (48 + n mod 10)])"
  by pat_completeness auto
termination
  by (relation "measure id") auto

definition str_int :: "int \<Rightarrow> string" where
  "str_int n = (if n < 0 then CHR ''-'' # str_nat (nat (- n)) else str_nat (nat n))"

fun join_comma :: "string list \<Rightarrow> string" where
  "join_comma [] = []"
| "join_comma [x] = x"
| "join_comma (x # y # ys) = x @ '', '' @ join_comma (y # ys)"

definition str_int_list :: "int list \<Rightarrow> string" where
  "str_int_list xs = ''['' @ join_comma (map str_int xs) @ '']''"

fun feats_loop :: "(string \<times> string) list \<Rightarrow> string \<Rightarrow> string" where
  "feats_loop [] feats = feats"
| "feats_loop ((f_name, f_val) # rest) feats = feats_loop rest (feats @ f_name @ ''='' @ f_val @ ''|'')"

definition strip_bar :: "string \<Rightarrow> string" where
  "strip_bar s = rev (dropWhile (\<lambda>c. c = CHR ''|'') (rev (dropWhile (\<lambda>c. c = CHR ''|'') s)))"

definition feats_string :: "(string \<times> string) list \<Rightarrow> string" where
  "feats_string f_dict =
     (let feats = strip_bar (feats_loop f_dict []) in if feats = [] then ''None'' else feats)"

definition morph_to_string :: "spacy_token \<Rightarrow> string" where
  "morph_to_string token = feats_string (tok_morph token)"

text \<open>
  What a printer can touch: the document it prints, the sink \<^verbatim>\<open>fo\<close> (\<open>None\<close> when the
  caller gave none; otherwise what has been written to it) and the standard output, a
  list of lines. Every printing function takes this state and returns the state it
  leaves.
\<close>

record printer =
  p_doc :: ud_doc
  fo :: "string list option"
  stdout :: "string list"

definition tab :: string where
  "tab = [CHR 0x09]"

definition newline :: string where
  "newline = [CHR 0x0A]"

text \<open>\<^verbatim>\<open>fo.write(s + '\n')\<close> when there is a sink, \<^verbatim>\<open>print(s)\<close> otherwise.\<close>

definition emit :: "string \<Rightarrow> printer \<Rightarrow> printer" where
  "emit s st =
     (case fo st of
        Some written \<Rightarrow> st\<lparr>fo := Some (written @ [s @ newline])\<rparr>
      | None \<Rightarrow> st\<lparr>stdout := stdout st @ [s]\<rparr>)"

text \<open>\<^verbatim>\<open>WordNode.display_word\<close>, on the word at position \<open>wi\<close> of sentence \<open>si\<close>.\<close>

definition display_word :: "nat \<Rightarrow> nat \<Rightarrow> printer \<Rightarrow> printer" where
  "display_word si wi st =
     (let ws = word_nodes (sentences (p_doc st) ! si);
          self = ws ! wi;
          res = str_int (index self) @ tab @ wn_text self @ tab @ ''lemma: '' @ wn_lemma self
                @ tab @ ''pos: '' @ upos self
                @ tab @ ''dep: '' @ dependency_relation self
                @ tab @ ''gov: '' @ str_int (governor self)
                @ tab @ ''feats: '' @ feats_string (features self);
          res = (case ner self of
                   None \<Rightarrow> res
                 | Some n \<Rightarrow>
                     res @ tab @ ''NER-type: '' @ ner_type n
                     @ tab @ ''NER-words: '' @ str_int_list (map (\<lambda>x. index (ws ! x)) (ner_words n)))
      in emit res st)"

fun print_words_loop :: "nat \<Rightarrow> nat list \<Rightarrow> printer \<Rightarrow> printer" where
  "print_words_loop si [] st = st"
| "print_words_loop si (wi # rest) st = print_words_loop si rest (display_word si wi st)"

definition print_words :: "nat \<Rightarrow> printer \<Rightarrow> printer" where
  "print_words si st =
     print_words_loop si [0..<length (word_nodes (sentences (p_doc st) ! si))] st"

text \<open>\<^verbatim>\<open>UdDoc.print_doc\<close>: the body of its loop, for sentence \<open>si\<close>, and the loop.\<close>

definition print_sentence :: "int \<Rightarrow> nat \<Rightarrow> printer \<Rightarrow> printer" where
  "print_sentence count si st =
     (let txt = sn_text (sentences (p_doc st) ! si);
          txt = (if count > 0 then newline @ '' '' @ str_int count @ '' '' @ txt else txt);
          st1 = print_words si (emit txt st)
      in if fo st1 = None then st1\<lparr>stdout := stdout st1 @ [[]]\<rparr> else st1)"

fun print_doc_loop :: "int \<Rightarrow> nat list \<Rightarrow> printer \<Rightarrow> printer" where
  "print_doc_loop count [] st = st"
| "print_doc_loop count (si # rest) st = print_doc_loop count rest (print_sentence count si st)"

definition print_doc :: "int \<Rightarrow> printer \<Rightarrow> printer" where
  "print_doc count st = print_doc_loop count [0..<length (sentences (p_doc st))] st"

text \<open>\<^verbatim>\<open>print_spacy_doc\<close> writes to the standard output only.\<close>

definition token_line :: "spacy_token \<Rightarrow> string" where
  "token_line token =
     str_int (tok_i token) @ tab @ tok_text token @ tab @ ''lemma: '' @ tok_lemma token
     @ tab @ ''pos: '' @ tok_pos token @ tab @ ''dep: '' @ tok_dep token
     @ tab @ ''gov: '' @ str_int (tok_head_i token) @ tab @ ''feats: '' @ morph_to_string token"

fun print_lines :: "string list \<Rightarrow> printer \<Rightarrow> printer" where
  "print_lines [] st = st"
| "print_lines (l # ls) st = print_lines ls (st\<lparr>stdout := stdout st @ [l]\<rparr>)"

definition print_spacy_doc :: "spacy_sent \<Rightarrow> printer \<Rightarrow> printer" where
  "print_spacy_doc sp_doc st =
     (let st1 = print_lines [''Spacy tokens for: '' @ sp_text sp_doc] st;
          st2 = print_lines (map token_line (sp_tokens sp_doc)) st1
      in if sp_ents sp_doc \<noteq> [] then
           print_lines
             (map (\<lambda>ent. ent_text ent @ '' '' @ str_int (start_char ent) @ '' ''
                          @ str_int (end_char ent) @ '' '' @ ent_label ent)
                (sp_ents sp_doc))
             (print_lines [''Entities:''] st2)
         else st2)"

section \<open>Auxiliary notions and example sentences\<close>

text \<open>
  The words \<^verbatim>\<open>redirect_dependants\<close> moves: those governed by \<open>f\<close>, other than \<open>f\<close> and \<open>t\<close>,
  whose label is in the list.
\<close>

definition redirected :: "word_node list \<Rightarrow> nat \<Rightarrow> nat \<Rightarrow> nat \<Rightarrow> bool" where
  "redirected ws f t k \<longleftrightarrow>
     k \<noteq> f \<and> k \<noteq> t \<and> governor_word (ws ! k) = Some f
     \<and> dependency_relation (ws ! k) \<in> set redirectable"

text \<open>The test that makes \<^verbatim>\<open>make_copula\<close> return \<^verbatim>\<open>False\<close>.\<close>

definition existential :: "word_node list \<Rightarrow> nat \<Rightarrow> bool" where
  "existential ws be_node \<longleftrightarrow>
     (case find_governed ws be_node ''expl'' of
        None \<Rightarrow> False
      | Some expl_node \<Rightarrow> wn_lemma (ws ! expl_node) = ''there'')"

text \<open>The sentence a successful \<^verbatim>\<open>make_copula\<close> leaves, position by position.\<close>

definition copula_result :: "word_node list \<Rightarrow> nat \<Rightarrow> nat \<Rightarrow> word_node list" where
  "copula_result ws h b =
     map (\<lambda>k. if k = h then (ws ! k)\<lparr>governor := governor (ws ! b),
                                      governor_word := governor_word (ws ! b),
                                      dependency_relation := dependency_relation (ws ! b)\<rparr>
               else if k = b then (ws ! k)\<lparr>governor := index (ws ! h),
                                           governor_word := Some h,
                                           dependency_relation := ''cop'',
                                           upos := ''AUX''\<rparr>
               else if governor_word (ws ! k) = Some b
                       \<and> dependency_relation (ws ! k) \<in> set redirectable
               then (ws ! k)\<lparr>governor := index (ws ! h), governor_word := Some h\<rparr>
               else ws ! k)
       [0..<length ws]"

text \<open>
  A word node with the given position, text, lemma, part of speech, label, governor
  position and governor, for the example sentences below.
\<close>

definition mk_word ::
  "int \<Rightarrow> string \<Rightarrow> string \<Rightarrow> string \<Rightarrow> string \<Rightarrow> int \<Rightarrow> nat option \<Rightarrow> word_node" where
  "mk_word ind txt lem pos rel gov gw =
     (new_WordNode 0 ind txt)
       \<lparr>wn_lemma := lem, upos := pos, dependency_relation := rel, governor := gov,
        governor_word := gw\<rparr>"

text \<open>``Mary is a doctor'', as the parser labels it.\<close>

definition ex_mary_is_a_doctor :: "word_node list" where
  "ex_mary_is_a_doctor =
     [mk_word 1 ''Mary'' ''Mary'' ''PROPN'' ''nsubj'' 2 (Some 1),
      mk_word 2 ''is'' ''be'' ''AUX'' ''root'' 0 None,
      mk_word 3 ''a'' ''a'' ''DET'' ''det'' 4 (Some 3),
      mk_word 4 ''doctor'' ''doctor'' ''NOUN'' ''attr'' 2 (Some 1)]"

text \<open>A verb ``is'' with two \<^verbatim>\<open>expl\<close> dependents, ``it'' before ``there''.\<close>

definition ex_it_there_is :: "word_node list" where
  "ex_it_there_is =
     [mk_word 1 ''it'' ''it'' ''PRON'' ''expl'' 3 (Some 2),
      mk_word 2 ''there'' ''there'' ''PRON'' ''expl'' 3 (Some 2),
      mk_word 3 ''is'' ''be'' ''VERB'' ''root'' 0 None,
      mk_word 4 ''ghost'' ''ghost'' ''NOUN'' ''attr'' 3 (Some 2)]"

text \<open>A parser token with the given fields, for the examples.\<close>

definition mk_token ::
  "int \<Rightarrow> string \<Rightarrow> string \<Rightarrow> string \<Rightarrow> string \<Rightarrow> int \<Rightarrow> int \<Rightarrow> (string \<times> string) list
   \<Rightarrow> spacy_token" where
  "mk_token i txt lem pos dep head_i idx morph =
     \<lparr>tok_i = i, tok_text = txt, tok_lemma = lem, tok_pos = pos, tok_dep = dep,
      tok_head_i = head_i, tok_idx = idx, tok_morph = morph\<rparr>"

text \<open>``Sam spent $40'', when the pass visits the currency sign.\<close>

definition ex_sam_spent :: "word_node list" where
  "ex_sam_spent =
     [mk_word 1 ''Sam'' ''Sam'' ''PROPN'' ''nsubj'' 2 (Some 1),
      mk_word 2 ''spent'' ''spend'' ''VERB'' ''root'' 0 None,
      mk_word 3 ''$'' ''$'' ''SYM'' ''nmod'' 4 (Some 3),
      mk_word 4 ''40'' ''40'' ''NUM'' ''obj'' 2 (Some 1)]"

text \<open>``The speech was well received'', the participle labelled \<^verbatim>\<open>acomp\<close>.\<close>

definition ex_speech_received :: "word_node list" where
  "ex_speech_received =
     [mk_word 1 ''The'' ''the'' ''DET'' ''det'' 2 (Some 1),
      mk_word 2 ''speech'' ''speech'' ''NOUN'' ''nsubj'' 3 (Some 2),
      mk_word 3 ''was'' ''be'' ''AUX'' ''root'' 0 None,
      mk_word 4 ''well'' ''well'' ''ADV'' ''advmod'' 5 (Some 4),
      (mk_word 5 ''received'' ''receive'' ''VERB'' ''acomp'' 3 (Some 2))
        \<lparr>features := [(''Aspect'', ''Perf''), (''Tense'', ''Past'')]\<rparr>]"

text \<open>``The problem is to leave'', when the pass visits ``leave''.\<close>

definition ex_problem_is_to_leave :: "word_node list" where
  "ex_problem_is_to_leave =
     [mk_word 1 ''The'' ''the'' ''DET'' ''det'' 2 (Some 1),
      mk_word 2 ''problem'' ''problem'' ''NOUN'' ''nsubj'' 3 (Some 2),
      mk_word 3 ''is'' ''be'' ''AUX'' ''root'' 0 None,
      mk_word 4 ''to'' ''to'' ''PART'' ''mark'' 5 (Some 4),
      mk_word 5 ''leave'' ''leave'' ''VERB'' ''xcomp'' 3 (Some 2)]"

text \<open>
  ``There is work to do'', when the pass visits ``do'': the rule for \<^verbatim>\<open>attr\<close> has made
  ``work'' the \<^verbatim>\<open>nsubj\<close> of ``is''.
\<close>

definition ex_there_is_work_to_do :: "word_node list" where
  "ex_there_is_work_to_do =
     [mk_word 1 ''There'' ''there'' ''PRON'' ''expl'' 2 (Some 1),
      mk_word 2 ''is'' ''be'' ''VERB'' ''root'' 0 None,
      mk_word 3 ''work'' ''work'' ''NOUN'' ''nsubj'' 2 (Some 1),
      mk_word 4 ''to'' ''to'' ''PART'' ''mark'' 5 (Some 4),
      mk_word 5 ''do'' ''do'' ''VERB'' ''xcomp'' 2 (Some 1)]"

text \<open>``I visited New York'', converted, with the character span of each word.\<close>

definition ex_new_york :: "word_node list" where
  "ex_new_york =
     [(mk_word 1 ''I'' ''I'' ''PRON'' ''nsubj'' 2 (Some 1))\<lparr>span := (0, 1)\<rparr>,
      (mk_word 2 ''visited'' ''visit'' ''VERB'' ''root'' 0 None)\<lparr>span := (2, 9)\<rparr>,
      (mk_word 3 ''New'' ''New'' ''PROPN'' ''compound'' 4 (Some 3))\<lparr>span := (10, 13)\<rparr>,
      (mk_word 4 ''York'' ''York'' ''PROPN'' ''obj'' 2 (Some 1))\<lparr>span := (14, 18)\<rparr>]"

definition ent_new_york :: spacy_span where
  "ent_new_york = \<lparr>ent_text = ''New York'', start_char = 10, end_char = 18, ent_label = ''GPE''\<rparr>"

text \<open>Two words that govern each other, and an entity span that covers both.\<close>

definition ex_cyclic_pair :: "word_node list" where
  "ex_cyclic_pair =
     [(mk_word 1 ''New'' ''New'' ''PROPN'' ''compound'' 2 (Some 1))\<lparr>span := (0, 3)\<rparr>,
      (mk_word 2 ''York'' ''York'' ''PROPN'' ''compound'' 1 (Some 0))\<lparr>span := (4, 8)\<rparr>]"

definition ent_cyclic_pair :: spacy_span where
  "ent_cyclic_pair = \<lparr>ent_text = ''New York'', start_char = 0, end_char = 8, ent_label = ''GPE''\<rparr>"

text \<open>
  The fragment ``By doing nothing.'': the preposition is the root, and governs ``doing''
  with the label \<^verbatim>\<open>pcomp\<close>.
\<close>

definition ex_by_doing_nothing :: spacy_doc where
  "ex_by_doing_nothing =
     (let s = \<lparr>sp_text = ''By doing nothing.'',
                sp_tokens =
                  [mk_token 0 ''By'' ''by'' ''ADP'' ''ROOT'' 0 0 [],
                   mk_token 1 ''doing'' ''do'' ''VERB'' ''pcomp'' 0 3 [],
                   mk_token 2 ''nothing'' ''nothing'' ''PRON'' ''dobj'' 1 9 [],
                   mk_token 3 ''.'' ''.'' ''PUNCT'' ''punct'' 0 16 []],
                sp_ents = []\<rparr>
      in \<lparr>whole = s, sents = [s]\<rparr>)"

text \<open>
  The document ``Go Dogs bark loudly'', of two sentences, ``Go'' and ``Dogs bark loudly''. A token's \<^verbatim>\<open>i\<close> and its head's
  are indices in the document: the second sentence starts at token 1.
\<close>

definition ex_go_dogs_bark :: spacy_doc where
  "ex_go_dogs_bark =
     (let t0 = mk_token 0 ''Go'' ''go'' ''VERB'' ''ROOT'' 0 0 [];
          t1 = mk_token 1 ''Dogs'' ''dog'' ''NOUN'' ''nsubj'' 2 3 [];
          t2 = mk_token 2 ''bark'' ''bark'' ''VERB'' ''ROOT'' 2 8 [];
          t3 = mk_token 3 ''loudly'' ''loudly'' ''ADV'' ''advmod'' 2 13 []
      in \<lparr>whole = \<lparr>sp_text = ''Go Dogs bark loudly'', sp_tokens = [t0, t1, t2, t3],
                    sp_ents = []\<rparr>,
          sents = [\<lparr>sp_text = ''Go'', sp_tokens = [t0], sp_ents = []\<rparr>,
                   \<lparr>sp_text = ''Dogs bark loudly'', sp_tokens = [t1, t2, t3],
                     sp_ents = []\<rparr>]\<rparr>)"

text \<open>``I visited New York'' as the parser gives it, with the entity ``New York''.\<close>

definition ex_new_york_sentence :: spacy_sent where
  "ex_new_york_sentence =
     \<lparr>sp_text = ''I visited New York'',
      sp_tokens =
        [mk_token 0 ''I'' ''I'' ''PRON'' ''nsubj'' 1 0 [],
         mk_token 1 ''visited'' ''visit'' ''VERB'' ''ROOT'' 1 2 [],
         mk_token 2 ''New'' ''New'' ''PROPN'' ''compound'' 3 10 [],
         mk_token 3 ''York'' ''York'' ''PROPN'' ''dobj'' 1 14 []],
      sp_ents = [ent_new_york]\<rparr>"

text \<open>``It is said'', with ``It'' the passive subject of ``is'' and ``said'' its \<^verbatim>\<open>ccomp\<close>.\<close>

definition ex_it_is_said :: spacy_doc where
  "ex_it_is_said =
     (let s = \<lparr>sp_text = ''It is said'',
                sp_tokens =
                  [mk_token 0 ''It'' ''it'' ''PRON'' ''nsubjpass'' 1 0 [],
                   mk_token 1 ''is'' ''be'' ''AUX'' ''ROOT'' 1 3 [],
                   mk_token 2 ''said'' ''say'' ''VERB'' ''ccomp'' 1 6 []],
                sp_ents = []\<rparr>
      in \<lparr>whole = s, sents = [s]\<rparr>)"

text \<open>
  What the cleanup relies on in the whole sentence: every governor is a word of the
  sentence, and a word labelled \<^verbatim>\<open>advmod\<close> has a governor and does not have lemma ``be''.
\<close>

definition cleanup_inv :: "word_node list \<Rightarrow> bool" where
  "cleanup_inv ws \<longleftrightarrow>
     list_all (\<lambda>w. case governor_word w of None \<Rightarrow> True | Some g \<Rightarrow> g < length ws) ws
     \<and> list_all (\<lambda>w. dependency_relation w = ''advmod'' \<longrightarrow>
                        governor_word w \<noteq> None \<and> wn_lemma w \<noteq> ''be'') ws"

text \<open>
  Before the rightmost adverb \<open>r\<close> of the copula \<open>b\<close> is visited: \<open>b\<close> is not yet \<^verbatim>\<open>cop\<close>
  and is not existential, none of its \<^verbatim>\<open>expl\<close> dependents is a ``be'', \<open>r\<close> is an \<^verbatim>\<open>advmod\<close>
  of \<open>b\<close>, and no word after \<open>r\<close> is one.
\<close>

definition before_head :: "word_node list \<Rightarrow> nat \<Rightarrow> nat \<Rightarrow> bool" where
  "before_head ws b r \<longleftrightarrow>
     b < length ws \<and> r < length ws \<and> wn_lemma (ws ! b) = ''be''
     \<and> dependency_relation (ws ! b) \<noteq> ''cop''
     \<and> \<not> existential ws b
     \<and> (\<forall>e<length ws. governor_word (ws ! e) = Some b
            \<and> dependency_relation (ws ! e) = ''expl'' \<longrightarrow> wn_lemma (ws ! e) \<noteq> ''be'')
     \<and> dependency_relation (ws ! r) = ''advmod'' \<and> governor_word (ws ! r) = Some b
     \<and> (\<forall>j<length ws. r < j \<longrightarrow>
           \<not> (dependency_relation (ws ! j) = ''advmod'' \<and> governor_word (ws ! j) = Some b))"

text \<open>After \<open>r\<close> has been visited: \<open>b\<close> is the \<^verbatim>\<open>cop\<close> of \<open>r\<close>, and \<open>r\<close> is no ``be''.\<close>

definition after_head :: "word_node list \<Rightarrow> nat \<Rightarrow> nat \<Rightarrow> bool" where
  "after_head ws b r \<longleftrightarrow>
     b < length ws \<and> r < length ws \<and> wn_lemma (ws ! r) \<noteq> ''be''
     \<and> dependency_relation (ws ! b) = ''cop'' \<and> upos (ws ! b) = ''AUX''
     \<and> governor_word (ws ! b) = Some r \<and> governor (ws ! b) = index (ws ! r)"

text \<open>
  ``There is hope and we are here now'', after the ascending pass: an existential ``is'',
  and a second copula ``are'' with two adverbs.
\<close>

definition ex_there_is_hope :: "word_node list" where
  "ex_there_is_hope =
     [mk_word 1 ''There'' ''there'' ''PRON'' ''expl'' 2 (Some 1),
      mk_word 2 ''is'' ''be'' ''VERB'' ''root'' 0 None,
      mk_word 3 ''hope'' ''hope'' ''NOUN'' ''nsubj'' 2 (Some 1),
      mk_word 4 ''and'' ''and'' ''CCONJ'' ''cc'' 6 (Some 5),
      mk_word 5 ''we'' ''we'' ''PRON'' ''nsubj'' 6 (Some 5),
      mk_word 6 ''are'' ''be'' ''AUX'' ''conj'' 2 (Some 1),
      mk_word 7 ''here'' ''here'' ''ADV'' ''advmod'' 6 (Some 5),
      mk_word 8 ''now'' ''now'' ''ADV'' ''advmod'' 6 (Some 5)]"

text \<open>``There is here now'': two adverbs attached to an existential ``is''.\<close>

definition ex_there_is_here_now :: "word_node list" where
  "ex_there_is_here_now =
     [mk_word 1 ''There'' ''there'' ''PRON'' ''expl'' 2 (Some 1),
      mk_word 2 ''is'' ''be'' ''VERB'' ''root'' 0 None,
      mk_word 3 ''here'' ''here'' ''ADV'' ''advmod'' 2 (Some 1),
      mk_word 4 ''now'' ''now'' ''ADV'' ''advmod'' 2 (Some 1)]"

section \<open>Lemmas on the helpers\<close>

lemma length_set_governor [simp]: "length (set_governor ws x y) = length ws"
  by (simp add: set_governor_def)

lemma length_set_relation [simp]: "length (set_relation ws x r) = length ws"
  by (simp add: set_relation_def)

lemma length_redirect_loop [simp]: "length (redirect_loop f t ks ws) = length ws"
  by (induction ks arbitrary: ws) simp_all

lemma length_redirect_dependants [simp]: "length (redirect_dependants ws f t) = length ws"
  by (simp add: redirect_dependants_def)

lemma redirect_loop_nth:
  assumes "distinct ks" "t < length ws" "k < length ws" "\<forall>j \<in> set ks. j < length ws"
  shows "redirect_loop f t ks ws ! k =
           (if k \<in> set ks \<and> redirected ws f t k
            then (ws ! k)\<lparr>governor := index (ws ! t), governor_word := Some t\<rparr>
            else ws ! k)"
  using assms
proof (induction ks arbitrary: ws)
  case Nil
  then show ?case by simp
next
  case (Cons j ks)
  let ?ws' = "if j = f \<or> j = t then ws
        else if governor_word (ws ! j) = Some f
                \<and> dependency_relation (ws ! j) \<in> set redirectable
        then set_governor ws j t
        else ws"
  have len: "length ?ws' = length ws" by simp
  have t': "index (?ws' ! t) = index (ws ! t)"
    using Cons.prems by (simp add: set_governor_def)
  have other: "\<And>i. i \<noteq> j \<Longrightarrow> ?ws' ! i = ws ! i"
    by (simp add: set_governor_def)
  have IH: "redirect_loop f t ks ?ws' ! k =
           (if k \<in> set ks \<and> redirected ?ws' f t k
            then (?ws' ! k)\<lparr>governor := index (?ws' ! t), governor_word := Some t\<rparr>
            else ?ws' ! k)"
    using Cons.prems len by (intro Cons.IH) auto
  show ?case
  proof (cases "k = j")
    case True
    then have "k \<notin> set ks" using Cons.prems by simp
    then show ?thesis using IH True Cons.prems
      by (simp add: redirected_def set_governor_def)
  next
    case False
    then show ?thesis using IH other[of k] t'
      by (simp add: redirected_def)
  qed
qed

lemma redirect_dependants_nth:
  assumes "t < length ws" "k < length ws"
  shows "redirect_dependants ws f t ! k =
           (if redirected ws f t k
            then (ws ! k)\<lparr>governor := index (ws ! t), governor_word := Some t\<rparr>
            else ws ! k)"
  using redirect_loop_nth[of "[0..<length ws]" t ws k f] assms
  by (simp add: redirect_dependants_def)



lemma find_upt_Some_iff:
  "List.find P [0..<n] = Some e \<longleftrightarrow> e < n \<and> P e \<and> (\<forall>j<e. \<not> P j)"
proof -
  have "List.find P [0..<n] = Some e \<longleftrightarrow>
        (\<exists>i<length [0..<n]. P ([0..<n] ! i) \<and> e = [0..<n] ! i \<and> (\<forall>j<i. \<not> P ([0..<n] ! j)))"
    by (rule find_Some_iff)
  also have "\<dots> \<longleftrightarrow> e < n \<and> P e \<and> (\<forall>j<e. \<not> P j)"
    by auto
  finally show ?thesis .
qed

lemma find_upt_None_iff:
  "List.find P [0..<n] = None \<longleftrightarrow> (\<forall>j<n. \<not> P j)"
  by (auto simp: find_None_iff)

lemma find_governed_Some_iff:
  "find_governed ws g dep = Some e \<longleftrightarrow>
     e < length ws \<and> governor_word (ws ! e) = Some g \<and> dependency_relation (ws ! e) = dep
     \<and> (\<forall>j<e. \<not> (governor_word (ws ! j) = Some g \<and> dependency_relation (ws ! j) = dep))"
  by (simp add: find_governed_def find_upt_Some_iff)

lemma find_governed_None_iff:
  "find_governed ws g dep = None \<longleftrightarrow>
     (\<forall>j<length ws. \<not> (governor_word (ws ! j) = Some g \<and> dependency_relation (ws ! j) = dep))"
  by (simp add: find_governed_def find_upt_None_iff)

lemma find_subj_Some_iff:
  "find_subj ws g = Some e \<longleftrightarrow>
     e < length ws \<and> governor_word (ws ! e) = Some g
     \<and> dependency_relation (ws ! e) \<in> set subj_relations
     \<and> (\<forall>j<e. \<not> (governor_word (ws ! j) = Some g
                     \<and> dependency_relation (ws ! j) \<in> set subj_relations))"
  by (simp add: find_subj_def find_upt_Some_iff)

lemma find_subj_None_iff:
  "find_subj ws g = None \<longleftrightarrow>
     (\<forall>j<length ws. \<not> (governor_word (ws ! j) = Some g
                     \<and> dependency_relation (ws ! j) \<in> set subj_relations))"
  by (simp add: find_subj_def find_upt_None_iff)

lemma existential_iff:
  "existential ws b \<longleftrightarrow>
     (\<exists>e<length ws. governor_word (ws ! e) = Some b \<and> dependency_relation (ws ! e) = ''expl''
         \<and> wn_lemma (ws ! e) = ''there''
         \<and> (\<forall>j<e. \<not> (governor_word (ws ! j) = Some b \<and> dependency_relation (ws ! j) = ''expl'')))"
proof (cases "find_governed ws b ''expl''")
  case None
  then show ?thesis
    unfolding existential_def using find_governed_None_iff[of ws b "''expl''"] by auto
next
  case (Some e)
  have e: "e < length ws" "governor_word (ws ! e) = Some b" "dependency_relation (ws ! e) = ''expl''"
    "\<forall>j<e. \<not> (governor_word (ws ! j) = Some b \<and> dependency_relation (ws ! j) = ''expl'')"
    using Some find_governed_Some_iff[of ws b "''expl''" e] by auto
  show ?thesis
  proof
    assume "existential ws b"
    then have "wn_lemma (ws ! e) = ''there''" using Some by (simp add: existential_def)
    with e show "\<exists>e<length ws. governor_word (ws ! e) = Some b \<and> dependency_relation (ws ! e) = ''expl''
         \<and> wn_lemma (ws ! e) = ''there''
         \<and> (\<forall>j<e. \<not> (governor_word (ws ! j) = Some b \<and> dependency_relation (ws ! j) = ''expl''))"
      by blast
  next
    assume "\<exists>e<length ws. governor_word (ws ! e) = Some b \<and> dependency_relation (ws ! e) = ''expl''
         \<and> wn_lemma (ws ! e) = ''there''
         \<and> (\<forall>j<e. \<not> (governor_word (ws ! j) = Some b \<and> dependency_relation (ws ! j) = ''expl''))"
    then obtain e' where e': "e' < length ws" "governor_word (ws ! e') = Some b"
      "dependency_relation (ws ! e') = ''expl''" "wn_lemma (ws ! e') = ''there''"
      "\<forall>j<e'. \<not> (governor_word (ws ! j) = Some b \<and> dependency_relation (ws ! j) = ''expl'')"
      by blast
    have "e' = e"
    proof (rule ccontr)
      assume "e' \<noteq> e"
      then consider "e' < e" | "e < e'" by linarith
      then show False using e e' by cases auto
    qed
    then show "existential ws b" using Some e' by (simp add: existential_def)
  qed
qed

lemma make_copula_eq:
  assumes "h < length ws" "b < length ws" "h \<noteq> b"
  shows "make_copula ws h b =
           (if existential ws b then (ws, False) else (copula_result ws h b, True))"
proof (cases "existential ws b")
  case True
  then show ?thesis by (simp add: make_copula_def existential_def)
next
  case False
  define ws1 where "ws1 = ws[h := (ws ! h)
                      \<lparr>governor := governor (ws ! b),
                       governor_word := governor_word (ws ! b),
                       dependency_relation := dependency_relation (ws ! b)\<rparr>]"
  define ws2 where "ws2 = ws1[b := (ws1 ! b)
                      \<lparr>governor := index (ws1 ! h),
                       governor_word := Some h,
                       dependency_relation := ''cop'',
                       upos := ''AUX''\<rparr>]"
  have mc: "make_copula ws h b = (redirect_dependants ws2 b h, True)"
    using False by (simp add: make_copula_def existential_def ws1_def ws2_def Let_def)
  have len2: "length ws2 = length ws" by (simp add: ws2_def ws1_def)
  have "redirect_dependants ws2 b h = copula_result ws h b"
  proof (rule nth_equalityI)
    show "length (redirect_dependants ws2 b h) = length (copula_result ws h b)"
      by (simp add: len2 copula_result_def)
  next
    fix k assume "k < length (redirect_dependants ws2 b h)"
    then have k: "k < length ws" by (simp add: len2)
    have "redirect_dependants ws2 b h ! k =
           (if redirected ws2 b h k
            then (ws2 ! k)\<lparr>governor := index (ws2 ! h), governor_word := Some h\<rparr>
            else ws2 ! k)"
      using assms k by (intro redirect_dependants_nth) (simp_all add: len2)
    then show "redirect_dependants ws2 b h ! k = copula_result ws h b ! k"
      using assms k
      by (auto simp: copula_result_def redirected_def ws2_def ws1_def)
  qed
  with mc False show ?thesis by simp
qed



lemma find_filter_conv:
  "List.find P xs = (case filter P xs of [] \<Rightarrow> None | x # _ \<Rightarrow> Some x)"
  by (induction xs) simp_all

lemma existential_filter:
  "existential ws b \<longleftrightarrow>
     (case filter (\<lambda>k. governor_word (ws ! k) = Some b \<and> dependency_relation (ws ! k) = ''expl'')
             [0..<length ws] of
        [] \<Rightarrow> False
      | e # _ \<Rightarrow> wn_lemma (ws ! e) = ''there'')"
  by (simp add: existential_def find_governed_def find_filter_conv split: list.splits)

section \<open>The make-copula helper\<close>

text \<open>
  Claim C3, as amended. \<^verbatim>\<open>make_copula\<close>, called on a head candidate and a ``be'' node that
  are two different words of the sentence: if the first word of the sentence, in
  sentence order, that is governed by the ``be'' node with relation \<^verbatim>\<open>expl\<close> has the lemma
  ``there'', the sentence is left as it is and the result is \<^verbatim>\<open>False\<close>. Otherwise the
  result is \<^verbatim>\<open>True\<close> and the sentence is changed in exactly this way: the head candidate
  has the governor position, governor word and relation the ``be'' node had; the ``be''
  node has relation \<^verbatim>\<open>cop\<close>, part of speech \<^verbatim>\<open>AUX\<close> and the head candidate as governor;
  every other word that the ``be'' node governed with a redirectable relation is
  governed by the head candidate; every other word is unchanged.
\<close>

theorem make_copula_first_expl:
  assumes "head_node < length ws" and "be_node < length ws" and "head_node \<noteq> be_node"
  shows "make_copula ws head_node be_node =
     (if (case filter (\<lambda>k. governor_word (ws ! k) = Some be_node
                            \<and> dependency_relation (ws ! k) = ''expl'') [0..<length ws] of
            [] \<Rightarrow> False
          | e # _ \<Rightarrow> wn_lemma (ws ! e) = ''there'')
      then (ws, False)
      else (map (\<lambda>k. if k = head_node
                      then (ws ! k)\<lparr>governor := governor (ws ! be_node),
                                    governor_word := governor_word (ws ! be_node),
                                    dependency_relation := dependency_relation (ws ! be_node)\<rparr>
                      else if k = be_node
                      then (ws ! k)\<lparr>governor := index (ws ! head_node),
                                    governor_word := Some head_node,
                                    dependency_relation := ''cop'',
                                    upos := ''AUX''\<rparr>
                      else if governor_word (ws ! k) = Some be_node
                              \<and> dependency_relation (ws ! k) \<in> set redirectable
                      then (ws ! k)\<lparr>governor := index (ws ! head_node),
                                    governor_word := Some head_node\<rparr>
                      else ws ! k)
              [0..<length ws], True))"
  using make_copula_eq[OF assms] unfolding existential_filter copula_result_def .

theorem make_copula_first_expl_witness:
  "(3::nat) < length ex_mary_is_a_doctor \<and> (1::nat) < length ex_mary_is_a_doctor \<and> (3::nat) \<noteq> 1
   \<and> make_copula ex_mary_is_a_doctor 3 1 =
       ([mk_word 1 ''Mary'' ''Mary'' ''PROPN'' ''nsubj'' 4 (Some 3),
         mk_word 2 ''is'' ''be'' ''AUX'' ''cop'' 4 (Some 3),
         mk_word 3 ''a'' ''a'' ''DET'' ''det'' 4 (Some 3),
         mk_word 4 ''doctor'' ''doctor'' ''NOUN'' ''root'' 0 None], True)"
proof -
  have h: "(3::nat) < length ex_mary_is_a_doctor" "(1::nat) < length ex_mary_is_a_doctor" "(3::nat) \<noteq> 1"
    by (simp_all add: ex_mary_is_a_doctor_def)
  have "make_copula ex_mary_is_a_doctor 3 1 =
       ([mk_word 1 ''Mary'' ''Mary'' ''PROPN'' ''nsubj'' 4 (Some 3),
         mk_word 2 ''is'' ''be'' ''AUX'' ''cop'' 4 (Some 3),
         mk_word 3 ''a'' ''a'' ''DET'' ''det'' 4 (Some 3),
         mk_word 4 ''doctor'' ''doctor'' ''NOUN'' ''root'' 0 None], True)"
    unfolding make_copula_first_expl[OF h] by code_simp
  with h show ?thesis by simp
qed

text \<open>
  Claim C3, as stated, fails where the ``be'' node has a dependent \<^verbatim>\<open>expl\<close> ``there'' that
  is not its first \<^verbatim>\<open>expl\<close> dependent: \<^verbatim>\<open>find_governed\<close> returns the first one only. In the
  example word 2 (``there'') is such a dependent of word 3 (``is''), and \<^verbatim>\<open>make_copula\<close>
  returns \<^verbatim>\<open>True\<close> and changes the sentence.
\<close>

theorem make_copula_any_expl_counterexample:
  "governor_word (ex_it_there_is ! 1) = Some 2
   \<and> dependency_relation (ex_it_there_is ! 1) = ''expl''
   \<and> wn_lemma (ex_it_there_is ! 1) = ''there''
   \<and> snd (make_copula ex_it_there_is 3 2) = True
   \<and> fst (make_copula ex_it_there_is 3 2) \<noteq> ex_it_there_is"
  by code_simp



section \<open>The initial label remap\<close>

text \<open>
  Claim C5. For every raw token, populating a word from it sends the label \<^verbatim>\<open>dobj\<close> to
  \<^verbatim>\<open>obj\<close>, \<^verbatim>\<open>ROOT\<close> to \<^verbatim>\<open>root\<close> and \<^verbatim>\<open>parataxis\<close> to the literal \<^verbatim>\<open>prataxis\<close>; the lookup table
  has fourteen entries, with fourteen different keys, and a label that is not one of its
  keys is copied to the word unchanged.
\<close>

theorem label_remap:
  "(tok_dep spacy_token = ''dobj'' \<longrightarrow>
      dependency_relation (spacy_to_ud_token word_node spacy_token) = ''obj'')
   \<and> (tok_dep spacy_token = ''ROOT'' \<longrightarrow>
      dependency_relation (spacy_to_ud_token word_node spacy_token) = ''root'')
   \<and> (tok_dep spacy_token = ''parataxis'' \<longrightarrow>
      dependency_relation (spacy_to_ud_token word_node spacy_token) = ''prataxis'')
   \<and> length dep_dict = 14 \<and> distinct (map fst dep_dict)
   \<and> (tok_dep spacy_token \<notin> set (map fst dep_dict) \<longrightarrow>
      dependency_relation (spacy_to_ud_token word_node spacy_token) = tok_dep spacy_token)"
proof -
  have absent: "map_of dep_dict (tok_dep spacy_token) = None"
    if "tok_dep spacy_token \<notin> set (map fst dep_dict)"
    using that by (simp add: map_of_eq_None_iff)
  have "length dep_dict = 14" "distinct (map fst dep_dict)"
    by (simp_all add: dep_dict_def)
  moreover have "map_of dep_dict ''dobj'' = Some ''obj''" "map_of dep_dict ''ROOT'' = Some ''root''"
    "map_of dep_dict ''parataxis'' = Some ''prataxis''"
    by (simp_all add: dep_dict_def)
  ultimately show ?thesis
    using absent by (simp add: spacy_to_ud_token_def)
qed

theorem label_remap_witness:
  "tok_dep (mk_token 3 ''40'' ''40'' ''NUM'' ''dobj'' 1 11 []) = ''dobj''
   \<and> dependency_relation (spacy_to_ud_token (new_WordNode 0 4 ''40'')
        (mk_token 3 ''40'' ''40'' ''NUM'' ''dobj'' 1 11 [])) = ''obj''
   \<and> tok_dep (mk_token 1 ''spent'' ''spend'' ''VERB'' ''ROOT'' 1 4 []) = ''ROOT''
   \<and> dependency_relation (spacy_to_ud_token (new_WordNode 0 2 ''spent'')
        (mk_token 1 ''spent'' ''spend'' ''VERB'' ''ROOT'' 1 4 [])) = ''root''
   \<and> tok_dep (mk_token 2 ''see'' ''see'' ''VERB'' ''parataxis'' 0 4 []) = ''parataxis''
   \<and> dependency_relation (spacy_to_ud_token (new_WordNode 0 3 ''see'')
        (mk_token 2 ''see'' ''see'' ''VERB'' ''parataxis'' 0 4 [])) = ''prataxis''
   \<and> tok_dep (mk_token 0 ''Sam'' ''Sam'' ''PROPN'' ''nsubj'' 1 0 []) \<notin> set (map fst dep_dict)
   \<and> dependency_relation (spacy_to_ud_token (new_WordNode 0 1 ''Sam'')
        (mk_token 0 ''Sam'' ''Sam'' ''PROPN'' ''nsubj'' 1 0 [])) = ''nsubj''"
proof -
  have a: "tok_dep (mk_token 3 ''40'' ''40'' ''NUM'' ''dobj'' 1 11 []) = ''dobj''"
    and b: "tok_dep (mk_token 1 ''spent'' ''spend'' ''VERB'' ''ROOT'' 1 4 []) = ''ROOT''"
    and c: "tok_dep (mk_token 2 ''see'' ''see'' ''VERB'' ''parataxis'' 0 4 []) = ''parataxis''"
    and d: "tok_dep (mk_token 0 ''Sam'' ''Sam'' ''PROPN'' ''nsubj'' 1 0 []) = ''nsubj''"
    and e: "tok_dep (mk_token 0 ''Sam'' ''Sam'' ''PROPN'' ''nsubj'' 1 0 []) \<notin> set (map fst dep_dict)"
    by (simp_all add: mk_token_def dep_dict_def)
  show ?thesis
    using label_remap[of "mk_token 3 ''40'' ''40'' ''NUM'' ''dobj'' 1 11 []" "new_WordNode 0 4 ''40''"]
      label_remap[of "mk_token 1 ''spent'' ''spend'' ''VERB'' ''ROOT'' 1 4 []" "new_WordNode 0 2 ''spent''"]
      label_remap[of "mk_token 2 ''see'' ''see'' ''VERB'' ''parataxis'' 0 4 []" "new_WordNode 0 3 ''see''"]
      label_remap[of "mk_token 0 ''Sam'' ''Sam'' ''PROPN'' ''nsubj'' 1 0 []" "new_WordNode 0 1 ''Sam''"]
      a b c d e
    by simp
qed

section \<open>The printers change no document\<close>

lemma p_doc_emit [simp]: "p_doc (emit s st) = p_doc st"
  by (simp add: emit_def split: option.splits)

lemma p_doc_display_word [simp]: "p_doc (display_word si wi st) = p_doc st"
  by (simp add: display_word_def Let_def)

lemma p_doc_print_words_loop [simp]: "p_doc (print_words_loop si ks st) = p_doc st"
  by (induction ks arbitrary: st) simp_all

lemma p_doc_print_sentence [simp]: "p_doc (print_sentence count si st) = p_doc st"
  by (simp add: print_sentence_def print_words_def Let_def)

lemma p_doc_print_doc_loop [simp]: "p_doc (print_doc_loop count ks st) = p_doc st"
  by (induction ks arbitrary: st) simp_all

lemma p_doc_print_lines [simp]: "p_doc (print_lines ls st) = p_doc st"
  by (induction ls arbitrary: st) simp_all

text \<open>
  Claim C10. Printing a normalized document, printing one word of it, and printing a
  raw analysis leave the document as it was: every sentence, and every field of every
  word node of it, is the same after the call. They write to the sink or to the standard
  output only.
\<close>

theorem printing_leaves_document:
  "p_doc (print_doc count st) = p_doc st
   \<and> p_doc (display_word si wi st) = p_doc st
   \<and> p_doc (print_spacy_doc sp_doc st) = p_doc st"
  by (simp add: print_doc_def print_spacy_doc_def Let_def)

section \<open>The currency rule\<close>

lemma redirect_dependants_map:
  assumes "t < length ws"
  shows "redirect_dependants ws f t =
           map (\<lambda>k. if redirected ws f t k
                     then (ws ! k)\<lparr>governor := index (ws ! t), governor_word := Some t\<rparr>
                     else ws ! k) [0..<length ws]"
  by (rule nth_equalityI) (simp_all add: redirect_dependants_nth[OF assms])

text \<open>
  Claim C7. The rule applied to a word labelled \<^verbatim>\<open>nmod\<close> whose lemma is the dollar sign and
  whose governor, another word of the sentence, has part of speech \<^verbatim>\<open>NUM\<close>: the word gets
  the governor position, governor word and relation its governor had; the former
  governor gets relation \<^verbatim>\<open>nummod\<close> and the word as governor; every other word the former
  governor governed with a redirectable relation is governed by the word; all the rest is
  unchanged, nothing is printed and nothing raised.
\<close>

theorem nmod_currency_swap:
  assumes "w < length ws" and "g < length ws" and "g \<noteq> w"
    and "dependency_relation (ws ! w) = ''nmod''" and "wn_lemma (ws ! w) = ''$''"
    and "governor_word (ws ! w) = Some g" and "upos (ws ! g) = ''NUM''"
  shows "apply_rule ws w =
     Inr (map (\<lambda>k. if k = w
                    then (ws ! k)\<lparr>dependency_relation := dependency_relation (ws ! g),
                                  governor := governor (ws ! g),
                                  governor_word := governor_word (ws ! g)\<rparr>
                    else if k = g
                    then (ws ! k)\<lparr>dependency_relation := ''nummod'',
                                  governor := index (ws ! w),
                                  governor_word := Some w\<rparr>
                    else if governor_word (ws ! k) = Some g
                            \<and> dependency_relation (ws ! k) \<in> set redirectable
                    then (ws ! k)\<lparr>governor := index (ws ! w), governor_word := Some w\<rparr>
                    else ws ! k)
            [0..<length ws], [])"
proof -
  define ws1 where "ws1 = ws[w := (ws ! w)
                             \<lparr>dependency_relation := dependency_relation (ws ! g),
                              governor := governor (ws ! g),
                              governor_word := governor_word (ws ! g)\<rparr>]"
  define ws2 where "ws2 = ws1[g := (ws1 ! g)
                             \<lparr>dependency_relation := ''nummod'',
                              governor := index (ws1 ! w),
                              governor_word := Some w\<rparr>]"
  have len: "length ws2 = length ws" by (simp add: ws2_def ws1_def)
  have "apply_rule ws w = nmod_to_ud ws w"
    using assms by (simp add: apply_rule_def)
  also have "\<dots> = Inr (redirect_dependants ws2 g w, [])"
    using assms by (simp add: nmod_to_ud_def ws1_def ws2_def Let_def)
  also have "redirect_dependants ws2 g w =
      map (\<lambda>k. if redirected ws2 g w k
                then (ws2 ! k)\<lparr>governor := index (ws2 ! w), governor_word := Some w\<rparr>
                else ws2 ! k) [0..<length ws2]"
    using assms by (intro redirect_dependants_map) (simp add: len)
  also have "\<dots> = map (\<lambda>k. if k = w
                    then (ws ! k)\<lparr>dependency_relation := dependency_relation (ws ! g),
                                  governor := governor (ws ! g),
                                  governor_word := governor_word (ws ! g)\<rparr>
                    else if k = g
                    then (ws ! k)\<lparr>dependency_relation := ''nummod'',
                                  governor := index (ws ! w),
                                  governor_word := Some w\<rparr>
                    else if governor_word (ws ! k) = Some g
                            \<and> dependency_relation (ws ! k) \<in> set redirectable
                    then (ws ! k)\<lparr>governor := index (ws ! w), governor_word := Some w\<rparr>
                    else ws ! k)
            [0..<length ws]"
    unfolding len using assms
    by (intro map_cong refl) (auto simp: redirected_def ws2_def ws1_def)
  finally show ?thesis .
qed

theorem nmod_currency_swap_witness:
  "(2::nat) < length ex_sam_spent \<and> (3::nat) < length ex_sam_spent \<and> (3::nat) \<noteq> 2
   \<and> dependency_relation (ex_sam_spent ! 2) = ''nmod'' \<and> wn_lemma (ex_sam_spent ! 2) = ''$''
   \<and> governor_word (ex_sam_spent ! 2) = Some 3 \<and> upos (ex_sam_spent ! 3) = ''NUM''
   \<and> apply_rule ex_sam_spent 2 =
       Inr ([mk_word 1 ''Sam'' ''Sam'' ''PROPN'' ''nsubj'' 2 (Some 1),
             mk_word 2 ''spent'' ''spend'' ''VERB'' ''root'' 0 None,
             mk_word 3 ''$'' ''$'' ''SYM'' ''obj'' 2 (Some 1),
             mk_word 4 ''40'' ''40'' ''NUM'' ''nummod'' 3 (Some 2)], [])"
proof -
  have h: "(2::nat) < length ex_sam_spent" "(3::nat) < length ex_sam_spent" "(3::nat) \<noteq> 2"
    "dependency_relation (ex_sam_spent ! 2) = ''nmod''" "wn_lemma (ex_sam_spent ! 2) = ''$''"
    "governor_word (ex_sam_spent ! 2) = Some 3" "upos (ex_sam_spent ! 3) = ''NUM''"
    by code_simp+
  have "apply_rule ex_sam_spent 2 =
       Inr ([mk_word 1 ''Sam'' ''Sam'' ''PROPN'' ''nsubj'' 2 (Some 1),
             mk_word 2 ''spent'' ''spend'' ''VERB'' ''root'' 0 None,
             mk_word 3 ''$'' ''$'' ''SYM'' ''obj'' 2 (Some 1),
             mk_word 4 ''40'' ''40'' ''NUM'' ''nummod'' 3 (Some 2)], [])"
    unfolding nmod_currency_swap[OF h] by code_simp
  with h show ?thesis by simp
qed

section \<open>The passive repair\<close>

lemma find_governed_filter:
  "find_governed ws g dep =
     (case filter (\<lambda>k. governor_word (ws ! k) = Some g \<and> dependency_relation (ws ! k) = dep)
             [0..<length ws] of
        [] \<Rightarrow> None
      | s # _ \<Rightarrow> Some s)"
  by (simp add: find_governed_def find_filter_conv)

lemma find_governed_lt: "find_governed ws g dep = Some s \<Longrightarrow> s < length ws"
  by (simp add: find_governed_Some_iff)

lemma find_governed_gov: "find_governed ws g dep = Some s \<Longrightarrow> governor_word (ws ! s) = Some g"
  by (simp add: find_governed_Some_iff)

lemma find_governed_rel: "find_governed ws g dep = Some s \<Longrightarrow> dependency_relation (ws ! s) = dep"
  by (simp add: find_governed_Some_iff)

text \<open>
  Claim C6. The rule applied to a word labelled \<^verbatim>\<open>acomp\<close> whose governor, another word of the
  sentence and not its own governor, has lemma ``be'', when the word is a \<^verbatim>\<open>VERB\<close> with
  feature \<^verbatim>\<open>Aspect=Perf\<close>: the verb takes over the governor position, governor word and
  relation of ``be''; the first \<^verbatim>\<open>nsubj\<close> dependent of ``be'', or when it has none its first
  \<^verbatim>\<open>csubj\<close> dependent, is governed by the verb with relation \<^verbatim>\<open>nsubj:pass\<close>, respectively
  \<^verbatim>\<open>csubj:pass\<close>; ``be'' is governed by the verb with relation \<^verbatim>\<open>aux:pass\<close>; all the rest is
  unchanged.
\<close>

theorem acomp_passive_repair:
  assumes "w < length ws" and "b < length ws" and "b \<noteq> w"
    and "governor_word (ws ! b) \<noteq> Some b"
    and "dependency_relation (ws ! w) = ''acomp''"
    and "governor_word (ws ! w) = Some b" and "wn_lemma (ws ! b) = ''be''"
    and "upos (ws ! w) = ''VERB''" and "map_of (features (ws ! w)) ''Aspect'' = Some ''Perf''"
  shows "apply_rule ws w =
     Inr (map (\<lambda>k. if k = w
                    then (ws ! k)\<lparr>governor := governor (ws ! b),
                                  governor_word := governor_word (ws ! b),
                                  dependency_relation := dependency_relation (ws ! b)\<rparr>
                    else if k = b
                    then (ws ! k)\<lparr>governor := index (ws ! w),
                                  governor_word := Some w,
                                  dependency_relation := ''aux:pass''\<rparr>
                    else if find_governed ws b ''nsubj'' = Some k
                    then (ws ! k)\<lparr>governor := index (ws ! w),
                                  governor_word := Some w,
                                  dependency_relation := ''nsubj:pass''\<rparr>
                    else if find_governed ws b ''nsubj'' = None
                            \<and> find_governed ws b ''csubj'' = Some k
                    then (ws ! k)\<lparr>governor := index (ws ! w),
                                  governor_word := Some w,
                                  dependency_relation := ''csubj:pass''\<rparr>
                    else ws ! k)
            [0..<length ws], [])"
proof -
  have disp: "apply_rule ws w = Inr (make_passive ws b w, [])"
    using assms by (simp add: apply_rule_def acomp_to_ud_def)
  have subj_ne: "s \<noteq> w \<and> s \<noteq> b \<and> s < length ws" if "find_governed ws b dep = Some s"
    and "dep \<noteq> ''acomp''" for s dep
    using that assms find_governed_lt[OF that(1)] find_governed_gov[OF that(1)]
      find_governed_rel[OF that(1)] by auto
  have "make_passive ws b w = map (\<lambda>k. if k = w
                    then (ws ! k)\<lparr>governor := governor (ws ! b),
                                  governor_word := governor_word (ws ! b),
                                  dependency_relation := dependency_relation (ws ! b)\<rparr>
                    else if k = b
                    then (ws ! k)\<lparr>governor := index (ws ! w),
                                  governor_word := Some w,
                                  dependency_relation := ''aux:pass''\<rparr>
                    else if find_governed ws b ''nsubj'' = Some k
                    then (ws ! k)\<lparr>governor := index (ws ! w),
                                  governor_word := Some w,
                                  dependency_relation := ''nsubj:pass''\<rparr>
                    else if find_governed ws b ''nsubj'' = None
                            \<and> find_governed ws b ''csubj'' = Some k
                    then (ws ! k)\<lparr>governor := index (ws ! w),
                                  governor_word := Some w,
                                  dependency_relation := ''csubj:pass''\<rparr>
                    else ws ! k)
            [0..<length ws]"
  proof (cases "find_governed ws b ''nsubj''")
    case (Some s)
    have s: "s \<noteq> w" "s \<noteq> b" "s < length ws" using subj_ne[OF Some] by simp_all
    show ?thesis
      using assms s Some
      by (intro nth_equalityI) (auto simp: make_passive_def Let_def)
  next
    case None
    show ?thesis
    proof (cases "find_governed ws b ''csubj''")
      case (Some s)
      have s: "s \<noteq> w" "s \<noteq> b" "s < length ws" using subj_ne[OF Some] by simp_all
      show ?thesis
        using assms s Some None
        by (intro nth_equalityI) (auto simp: make_passive_def Let_def)
    next
      case None2: None
      show ?thesis
        using assms None None2
        by (intro nth_equalityI) (auto simp: make_passive_def Let_def)
    qed
  qed
  with disp show ?thesis by simp
qed

theorem acomp_passive_repair_witness:
  "(4::nat) < length ex_speech_received \<and> (2::nat) < length ex_speech_received \<and> (2::nat) \<noteq> 4
   \<and> governor_word (ex_speech_received ! 2) \<noteq> Some 2
   \<and> dependency_relation (ex_speech_received ! 4) = ''acomp''
   \<and> governor_word (ex_speech_received ! 4) = Some 2
   \<and> wn_lemma (ex_speech_received ! 2) = ''be''
   \<and> upos (ex_speech_received ! 4) = ''VERB''
   \<and> map_of (features (ex_speech_received ! 4)) ''Aspect'' = Some ''Perf''
   \<and> apply_rule ex_speech_received 4 =
       Inr ([mk_word 1 ''The'' ''the'' ''DET'' ''det'' 2 (Some 1),
             mk_word 2 ''speech'' ''speech'' ''NOUN'' ''nsubj:pass'' 5 (Some 4),
             mk_word 3 ''was'' ''be'' ''AUX'' ''aux:pass'' 5 (Some 4),
             mk_word 4 ''well'' ''well'' ''ADV'' ''advmod'' 5 (Some 4),
             (mk_word 5 ''received'' ''receive'' ''VERB'' ''root'' 0 None)
               \<lparr>features := [(''Aspect'', ''Perf''), (''Tense'', ''Past'')]\<rparr>], [])"
proof -
  have h: "(4::nat) < length ex_speech_received" "(2::nat) < length ex_speech_received"
    "(2::nat) \<noteq> 4" "governor_word (ex_speech_received ! 2) \<noteq> Some 2"
    "dependency_relation (ex_speech_received ! 4) = ''acomp''"
    "governor_word (ex_speech_received ! 4) = Some 2"
    "wn_lemma (ex_speech_received ! 2) = ''be''"
    "upos (ex_speech_received ! 4) = ''VERB''"
    "map_of (features (ex_speech_received ! 4)) ''Aspect'' = Some ''Perf''"
    by code_simp+
  have "apply_rule ex_speech_received 4 =
       Inr ([mk_word 1 ''The'' ''the'' ''DET'' ''det'' 2 (Some 1),
             mk_word 2 ''speech'' ''speech'' ''NOUN'' ''nsubj:pass'' 5 (Some 4),
             mk_word 3 ''was'' ''be'' ''AUX'' ''aux:pass'' 5 (Some 4),
             mk_word 4 ''well'' ''well'' ''ADV'' ''advmod'' 5 (Some 4),
             (mk_word 5 ''received'' ''receive'' ''VERB'' ''root'' 0 None)
               \<lparr>features := [(''Aspect'', ''Perf''), (''Tense'', ''Past'')]\<rparr>], [])"
    unfolding acomp_passive_repair[OF h] by code_simp
  with h show ?thesis by simp
qed

section \<open>Clausal complements of a copula\<close>

lemma find_subj_lt: "find_subj ws g = Some s \<Longrightarrow> s < length ws"
  by (simp add: find_subj_Some_iff)

lemma find_subj_gov: "find_subj ws g = Some s \<Longrightarrow> governor_word (ws ! s) = Some g"
  by (simp add: find_subj_Some_iff)

lemma find_subj_rel:
  "find_subj ws g = Some s \<Longrightarrow> dependency_relation (ws ! s) \<in> set subj_relations"
  by (simp add: find_subj_Some_iff)

lemma length_copula_result [simp]: "length (copula_result ws h b) = length ws"
  by (simp add: copula_result_def)

lemma copula_result_nth:
  "k < length ws \<Longrightarrow> copula_result ws h b ! k =
     (if k = h then (ws ! k)\<lparr>governor := governor (ws ! b),
                                      governor_word := governor_word (ws ! b),
                                      dependency_relation := dependency_relation (ws ! b)\<rparr>
               else if k = b then (ws ! k)\<lparr>governor := index (ws ! h),
                                           governor_word := Some h,
                                           dependency_relation := ''cop'',
                                           upos := ''AUX''\<rparr>
               else if governor_word (ws ! k) = Some b
                       \<and> dependency_relation (ws ! k) \<in> set redirectable
               then (ws ! k)\<lparr>governor := index (ws ! h), governor_word := Some h\<rparr>
               else ws ! k)"
  by (simp add: copula_result_def)

text \<open>
  Where the rule for \<^verbatim>\<open>xcomp\<close> and \<^verbatim>\<open>ccomp\<close> does what the comment in its source says
  (``\<^verbatim>\<open>subj_node\<close> has been redirected to \<^verbatim>\<open>word_node\<close> by \<^verbatim>\<open>make_copula\<close>''): the governor,
  another word of the sentence and not its own governor, has lemma ``be'', its first
  \<^verbatim>\<open>expl\<close> dependent, if it has one, does not have lemma ``there'', and its first subject
  dependent, if it has one, is labelled \<^verbatim>\<open>nsubj\<close>, \<^verbatim>\<open>csubj\<close>, \<^verbatim>\<open>nsubj:outer\<close> or
  \<^verbatim>\<open>csubj:outer\<close>. Then the word becomes the copula head over the governor, and that
  subject dependent is governed by the word and has \<^verbatim>\<open>:outer\<close> appended to its relation.
\<close>

lemma comp_copula_outer:
  assumes "w < length ws" and "g < length ws" and "g \<noteq> w"
    and "governor_word (ws ! g) \<noteq> Some g"
    and "dependency_relation (ws ! w) \<in> set [''xcomp'', ''ccomp'']"
    and "governor_word (ws ! w) = Some g" and "wn_lemma (ws ! g) = ''be''"
    and "\<not> (case filter (\<lambda>k. governor_word (ws ! k) = Some g
                             \<and> dependency_relation (ws ! k) = ''expl'') [0..<length ws] of
              [] \<Rightarrow> False
            | e # _ \<Rightarrow> wn_lemma (ws ! e) = ''there'')"
    and "case find_subj ws g of
           None \<Rightarrow> True
         | Some s \<Rightarrow> dependency_relation (ws ! s)
                      \<in> set [''nsubj'', ''csubj'', ''nsubj:outer'', ''csubj:outer'']"
  shows "apply_rule ws w =
     Inr (map (\<lambda>k. if k = w
                    then (ws ! k)\<lparr>governor := governor (ws ! g),
                                  governor_word := governor_word (ws ! g),
                                  dependency_relation := dependency_relation (ws ! g)\<rparr>
                    else if k = g
                    then (ws ! k)\<lparr>governor := index (ws ! w),
                                  governor_word := Some w,
                                  dependency_relation := ''cop'',
                                  upos := ''AUX''\<rparr>
                    else if find_subj ws g = Some k
                    then (ws ! k)\<lparr>governor := index (ws ! w),
                                  governor_word := Some w,
                                  dependency_relation := dependency_relation (ws ! k) @ '':outer''\<rparr>
                    else if governor_word (ws ! k) = Some g
                            \<and> dependency_relation (ws ! k) \<in> set redirectable
                    then (ws ! k)\<lparr>governor := index (ws ! w), governor_word := Some w\<rparr>
                    else ws ! k)
            [0..<length ws], [])"
    (is "_ = Inr (map ?F _, _)")
proof -
  have rel: "dependency_relation (ws ! w) = ''xcomp'' \<or> dependency_relation (ws ! w) = ''ccomp''"
    using assms(5) by simp
  have disp: "apply_rule ws w = comp_to_ud ws w"
    using rel by (auto simp: apply_rule_def)
  have nex: "\<not> existential ws g"
    using assms(8) by (simp add: existential_filter)
  have mc: "fst (make_copula ws w g) = copula_result ws w g"
    using make_copula_eq[of w ws g] assms nex by simp
  show ?thesis
  proof (cases "find_subj ws g")
    case None
    have "comp_to_ud ws w = Inr (copula_result ws w g, [])"
      using assms None by (simp add: comp_to_ud_def mc)
    moreover have "copula_result ws w g = map ?F [0..<length ws]"
      using None by (simp add: copula_result_def)
    ultimately show ?thesis using disp by simp
  next
    case (Some s)
    have s: "s < length ws" "governor_word (ws ! s) = Some g"
      using find_subj_lt[OF Some] find_subj_gov[OF Some] by simp_all
    have srel: "dependency_relation (ws ! s) \<in> set [''nsubj'', ''csubj'', ''nsubj:outer'', ''csubj:outer'']"
      using assms(9) Some by simp
    then have sred: "dependency_relation (ws ! s) \<in> set redirectable"
      by (auto simp: redirectable_def)
    have sw: "s \<noteq> w" using srel rel by auto
    have sg: "s \<noteq> g" using s assms(4) by auto
    let ?R = "set_relation (copula_result ws w g) s
               (dependency_relation (copula_result ws w g ! s) @ '':outer'')"
    have "comp_to_ud ws w = Inr (?R, [])"
      using assms Some by (simp add: comp_to_ud_def mc Let_def)
    moreover have "?R = map ?F [0..<length ws]"
    proof (rule nth_equalityI)
      show "length ?R = length (map ?F [0..<length ws])"
        by simp
    next
      fix k assume "k < length ?R"
      then have k: "k < length ws" by simp
      show "?R ! k = map ?F [0..<length ws] ! k"
        using k s sw sg sred Some
        by (cases "k = s") (simp_all add: set_relation_def copula_result_nth)
    qed
    ultimately show ?thesis using disp by simp
  qed
qed

lemma comp_copula_outer_example:
  "(4::nat) < length ex_problem_is_to_leave \<and> (2::nat) < length ex_problem_is_to_leave
   \<and> (2::nat) \<noteq> 4 \<and> governor_word (ex_problem_is_to_leave ! 2) \<noteq> Some 2
   \<and> dependency_relation (ex_problem_is_to_leave ! 4) \<in> set [''xcomp'', ''ccomp'']
   \<and> governor_word (ex_problem_is_to_leave ! 4) = Some 2
   \<and> wn_lemma (ex_problem_is_to_leave ! 2) = ''be''
   \<and> find_governed ex_problem_is_to_leave 2 ''expl'' = None
   \<and> find_subj ex_problem_is_to_leave 2 = Some 1
   \<and> dependency_relation (ex_problem_is_to_leave ! 1) = ''nsubj''
   \<and> apply_rule ex_problem_is_to_leave 4 =
       Inr ([mk_word 1 ''The'' ''the'' ''DET'' ''det'' 2 (Some 1),
             mk_word 2 ''problem'' ''problem'' ''NOUN'' ''nsubj:outer'' 5 (Some 4),
             mk_word 3 ''is'' ''be'' ''AUX'' ''cop'' 5 (Some 4),
             mk_word 4 ''to'' ''to'' ''PART'' ''mark'' 5 (Some 4),
             mk_word 5 ''leave'' ''leave'' ''VERB'' ''root'' 0 None], [])"
proof -
  have h: "(4::nat) < length ex_problem_is_to_leave" "(2::nat) < length ex_problem_is_to_leave"
    "(2::nat) \<noteq> 4" "governor_word (ex_problem_is_to_leave ! 2) \<noteq> Some 2"
    "dependency_relation (ex_problem_is_to_leave ! 4) \<in> set [''xcomp'', ''ccomp'']"
    "governor_word (ex_problem_is_to_leave ! 4) = Some 2"
    "wn_lemma (ex_problem_is_to_leave ! 2) = ''be''"
    "\<not> (case filter (\<lambda>k. governor_word (ex_problem_is_to_leave ! k) = Some 2
                             \<and> dependency_relation (ex_problem_is_to_leave ! k) = ''expl'')
                  [0..<length ex_problem_is_to_leave] of
              [] \<Rightarrow> False
            | e # _ \<Rightarrow> wn_lemma (ex_problem_is_to_leave ! e) = ''there'')"
    "case find_subj ex_problem_is_to_leave 2 of
           None \<Rightarrow> True
         | Some s \<Rightarrow> dependency_relation (ex_problem_is_to_leave ! s)
                      \<in> set [''nsubj'', ''csubj'', ''nsubj:outer'', ''csubj:outer'']"
    by code_simp+
  have e: "find_governed ex_problem_is_to_leave 2 ''expl'' = None"
    "find_subj ex_problem_is_to_leave 2 = Some 1"
    "dependency_relation (ex_problem_is_to_leave ! 1) = ''nsubj''"
    by code_simp+
  have "apply_rule ex_problem_is_to_leave 4 =
       Inr ([mk_word 1 ''The'' ''the'' ''DET'' ''det'' 2 (Some 1),
             mk_word 2 ''problem'' ''problem'' ''NOUN'' ''nsubj:outer'' 5 (Some 4),
             mk_word 3 ''is'' ''be'' ''AUX'' ''cop'' 5 (Some 4),
             mk_word 4 ''to'' ''to'' ''PART'' ''mark'' 5 (Some 4),
             mk_word 5 ''leave'' ''leave'' ''VERB'' ''root'' 0 None], [])"
    unfolding comp_copula_outer[OF h] by code_simp
  with h(1-7) e show ?thesis by simp
qed

text \<open>
  On an existential ``be'' \<^verbatim>\<open>make_copula\<close> refuses, and the rule does not look at what it
  returns: the word stays the \<^verbatim>\<open>xcomp\<close> of ``is'', ``is'' stays the root, and the subject
  still has \<^verbatim>\<open>:outer\<close> appended, though nothing has redirected it.
\<close>

lemma comp_existential_example:
  "dependency_relation (ex_there_is_work_to_do ! 4) = ''xcomp''
   \<and> governor_word (ex_there_is_work_to_do ! 4) = Some 1
   \<and> wn_lemma (ex_there_is_work_to_do ! 1) = ''be''
   \<and> find_subj ex_there_is_work_to_do 1 = Some 2
   \<and> apply_rule ex_there_is_work_to_do 4 =
       Inr ([mk_word 1 ''There'' ''there'' ''PRON'' ''expl'' 2 (Some 1),
             mk_word 2 ''is'' ''be'' ''VERB'' ''root'' 0 None,
             mk_word 3 ''work'' ''work'' ''NOUN'' ''nsubj:outer'' 2 (Some 1),
             mk_word 4 ''to'' ''to'' ''PART'' ''mark'' 5 (Some 4),
             mk_word 5 ''do'' ''do'' ''VERB'' ''xcomp'' 2 (Some 1)], [])"
  by code_simp

text \<open>
  Claim C4 fails on the code. In ``It is said'' the subject of ``is'' is labelled
  \<^verbatim>\<open>nsubj:pass\<close> (the parser's \<^verbatim>\<open>nsubjpass\<close>) and ``said'' is its \<^verbatim>\<open>ccomp\<close>. \<^verbatim>\<open>find_subj\<close>
  finds the subject, \<^verbatim>\<open>make_copula\<close> makes ``said'' the copula head, but
  \<^verbatim>\<open>redirect_dependants\<close> does not move a dependent labelled \<^verbatim>\<open>nsubj:pass\<close>: the subject
  stays governed by ``is'', now the \<^verbatim>\<open>cop\<close> of ``said'', and is relabelled
  \<^verbatim>\<open>nsubj:pass:outer\<close> all the same.
\<close>

theorem comp_pass_subject_not_redirected:
  "spacy_to_ud_doc 0 ex_it_is_said =
     Inr (\<lparr>sentences =
             [\<lparr>word_nodes =
                 [(mk_word 1 ''It'' ''it'' ''PRON'' ''nsubj:pass:outer'' 2 (Some 1))
                    \<lparr>span := (0, 2)\<rparr>,
                  (mk_word 2 ''is'' ''be'' ''AUX'' ''cop'' 3 (Some 2))
                    \<lparr>wn_id := 1, span := (3, 5)\<rparr>,
                  (mk_word 3 ''said'' ''say'' ''VERB'' ''root'' 0 None)
                    \<lparr>wn_id := 2, span := (6, 10)\<rparr>],
               sn_text = ''It is said''\<rparr>]\<rparr>, [])"
  by code_simp

section \<open>Entity alignment\<close>

lemma length_ner_head_loop [simp]: "length (ner_head_loop h ks ws) = length ws"
  by (induction ks arbitrary: ws) simp_all

lemma ner_head_loop_nth:
  assumes "distinct ks" and "\<forall>j\<in>set ks. j < length ws" and "k < length ws"
  shows "ner_head_loop h ks ws ! k =
           (if k \<in> set ks \<and> Some k \<noteq> h then (ws ! k)\<lparr>ner_head_word := h\<rparr> else ws ! k)"
  using assms
proof (induction ks arbitrary: ws)
  case Nil
  then show ?case by simp
next
  case (Cons j ks)
  let ?ws' = "if Some j \<noteq> h then ws[j := (ws ! j)\<lparr>ner_head_word := h\<rparr>] else ws"
  have IH: "ner_head_loop h ks ?ws' ! k =
           (if k \<in> set ks \<and> Some k \<noteq> h then (?ws' ! k)\<lparr>ner_head_word := h\<rparr> else ?ws' ! k)"
    using Cons.prems by (intro Cons.IH) auto
  show ?case
  proof (cases "k = j")
    case True
    then have "k \<notin> set ks" using Cons.prems by simp
    then show ?thesis using IH True Cons.prems by simp
  next
    case False
    then show ?thesis using IH by simp
  qed
qed

lemma find_span_words_props:
  "sorted (find_span_words ws sp) \<and> distinct (find_span_words ws sp)
   \<and> set (find_span_words ws sp) =
       {k. k < length ws \<and> start_char sp \<le> fst (span (ws ! k))
            \<and> snd (span (ws ! k)) \<le> end_char sp}"
  by (auto simp: find_span_words_def sorted_wrt_filter)

lemma add_entity_eq:
  "add_entity ws sp =
     (case filter (\<lambda>k. case governor_word (ws ! k) of
                          None \<Rightarrow> True
                        | Some g \<Rightarrow> g \<notin> set (find_span_words ws sp))
             (find_span_words ws sp) of
        [] \<Rightarrow>
          map (\<lambda>k. if k \<in> set (find_span_words ws sp)
                    then (ws ! k)\<lparr>ner_head_word := None\<rparr> else ws ! k) [0..<length ws]
      | h # _ \<Rightarrow>
          map (\<lambda>k. if k = h
                    then (ws ! k)\<lparr>ner := Some \<lparr>ner_text = ent_text sp,
                                                ner_words = find_span_words ws sp,
                                                ner_span = (start_char sp, end_char sp),
                                                ner_type = ent_label sp\<rparr>\<rparr>
                    else if k \<in> set (find_span_words ws sp)
                    then (ws ! k)\<lparr>ner_head_word := Some h\<rparr>
                    else ws ! k) [0..<length ws])"
proof -
  let ?sw = "find_span_words ws sp"
  let ?q = "\<lambda>k. case governor_word (ws ! k) of None \<Rightarrow> True | Some g \<Rightarrow> g \<notin> set ?sw"
  have d: "distinct ?sw" and r: "\<forall>j\<in>set ?sw. j < length ws"
    using find_span_words_props[of ws sp] by auto
  show ?thesis
  proof (cases "filter ?q ?sw")
    case Nil
    then have f: "List.find ?q ?sw = None" by (simp add: find_filter_conv)
    have "add_entity ws sp = ner_head_loop None ?sw ws"
      using f by (simp add: add_entity_def Let_def)
    also have "\<dots> = map (\<lambda>k. if k \<in> set ?sw
                    then (ws ! k)\<lparr>ner_head_word := None\<rparr> else ws ! k) [0..<length ws]"
      using d r by (intro nth_equalityI) (simp_all add: ner_head_loop_nth)
    finally show ?thesis using Nil by simp
  next
    case (Cons h rest)
    then have f: "List.find ?q ?sw = Some h" by (simp add: find_filter_conv)
    have "h \<in> set (filter ?q ?sw)" using Cons by simp
    then have hin: "h \<in> set ?sw" by simp
    then have hlt: "h < length ws" using r by blast
    let ?ws1 = "ws[h := (ws ! h)\<lparr>ner := Some \<lparr>ner_text = ent_text sp,
                                                ner_words = ?sw,
                                                ner_span = (start_char sp, end_char sp),
                                                ner_type = ent_label sp\<rparr>\<rparr>]"
    have "add_entity ws sp = ner_head_loop (Some h) ?sw ?ws1"
      using f by (simp add: add_entity_def Let_def)
    also have "\<dots> = map (\<lambda>k. if k = h
                    then (ws ! k)\<lparr>ner := Some \<lparr>ner_text = ent_text sp,
                                                ner_words = ?sw,
                                                ner_span = (start_char sp, end_char sp),
                                                ner_type = ent_label sp\<rparr>\<rparr>
                    else if k \<in> set ?sw
                    then (ws ! k)\<lparr>ner_head_word := Some h\<rparr>
                    else ws ! k) [0..<length ws]"
      using d r hlt by (intro nth_equalityI) (auto simp: ner_head_loop_nth)
    finally show ?thesis using Cons by simp
  qed
qed

lemma add_entities_step:
  "add_entities ws (sp # rest) =
     add_entities
       (case filter (\<lambda>k. case governor_word (ws ! k) of
                            None \<Rightarrow> True
                          | Some g \<Rightarrow> g \<notin> set (find_span_words ws sp))
               (find_span_words ws sp) of
          [] \<Rightarrow>
            map (\<lambda>k. if k \<in> set (find_span_words ws sp)
                      then (ws ! k)\<lparr>ner_head_word := None\<rparr> else ws ! k) [0..<length ws]
        | h # _ \<Rightarrow>
            map (\<lambda>k. if k = h
                      then (ws ! k)\<lparr>ner := Some \<lparr>ner_text = ent_text sp,
                                                  ner_words = find_span_words ws sp,
                                                  ner_span = (start_char sp, end_char sp),
                                                  ner_type = ent_label sp\<rparr>\<rparr>
                      else if k \<in> set (find_span_words ws sp)
                      then (ws ! k)\<lparr>ner_head_word := Some h\<rparr>
                      else ws ! k) [0..<length ws])
       rest"
  using add_entity_eq[of ws sp] by simp

text \<open>
  Claim C9. \<^verbatim>\<open>add_entities\<close> treats the entity spans of the sentence one after the other,
  in their order, each on the sentence the spans before it have left. For a span, the
  span words \<^verbatim>\<open>find_span_words\<close> returns are exactly the positions of the words whose
  character span lies within the entity's, in sentence order and each once. The first
  span word that has no governor, or whose governor is not a span word, gets the
  annotation (the entity's text, the span words, its character span, its type), every
  other span word gets a back reference to that word, and no other word changes. If no
  span word qualifies, no word's annotation changes and nothing is printed or raised:
  the span words end with no back reference, and the sentence is unchanged when they had
  none before.
\<close>

theorem entity_head_selection:
  "(sorted (find_span_words ws sp) \<and> distinct (find_span_words ws sp)
    \<and> set (find_span_words ws sp) =
        {k. k < length ws \<and> start_char sp \<le> fst (span (ws ! k))
             \<and> snd (span (ws ! k)) \<le> end_char sp})
   \<and> add_entities ws [] = ws
   \<and> add_entities ws (sp # rest) =
       add_entities
         (case filter (\<lambda>k. case governor_word (ws ! k) of
                              None \<Rightarrow> True
                            | Some g \<Rightarrow> g \<notin> set (find_span_words ws sp))
                 (find_span_words ws sp) of
            [] \<Rightarrow>
              map (\<lambda>k. if k \<in> set (find_span_words ws sp)
                        then (ws ! k)\<lparr>ner_head_word := None\<rparr> else ws ! k) [0..<length ws]
          | h # _ \<Rightarrow>
              map (\<lambda>k. if k = h
                        then (ws ! k)\<lparr>ner := Some \<lparr>ner_text = ent_text sp,
                                                    ner_words = find_span_words ws sp,
                                                    ner_span = (start_char sp, end_char sp),
                                                    ner_type = ent_label sp\<rparr>\<rparr>
                        else if k \<in> set (find_span_words ws sp)
                        then (ws ! k)\<lparr>ner_head_word := Some h\<rparr>
                        else ws ! k) [0..<length ws])
         rest
   \<and> (filter (\<lambda>k. case governor_word (ws ! k) of
                          None \<Rightarrow> True
                        | Some g \<Rightarrow> g \<notin> set (find_span_words ws sp))
             (find_span_words ws sp) = [] \<longrightarrow>
        map ner (add_entities ws [sp]) = map ner ws
        \<and> ((\<forall>k\<in>set (find_span_words ws sp). ner_head_word (ws ! k) = None) \<longrightarrow>
             add_entities ws [sp] = ws))"
proof (intro conjI impI)
  assume nil: "filter (\<lambda>k. case governor_word (ws ! k) of
                          None \<Rightarrow> True
                        | Some g \<Rightarrow> g \<notin> set (find_span_words ws sp))
             (find_span_words ws sp) = []"
  have eq: "add_entities ws [sp] = map (\<lambda>k. if k \<in> set (find_span_words ws sp)
                    then (ws ! k)\<lparr>ner_head_word := None\<rparr> else ws ! k) [0..<length ws]"
    using add_entity_eq[of ws sp] nil by simp
  show "map ner (add_entities ws [sp]) = map ner ws"
    unfolding eq by (intro nth_equalityI) simp_all
  assume "\<forall>k\<in>set (find_span_words ws sp). ner_head_word (ws ! k) = None"
  then show "add_entities ws [sp] = ws"
    unfolding eq by (intro nth_equalityI) auto
next
  show "add_entities ws (sp # rest) =
       add_entities
         (case filter (\<lambda>k. case governor_word (ws ! k) of
                              None \<Rightarrow> True
                            | Some g \<Rightarrow> g \<notin> set (find_span_words ws sp))
                 (find_span_words ws sp) of
            [] \<Rightarrow>
              map (\<lambda>k. if k \<in> set (find_span_words ws sp)
                        then (ws ! k)\<lparr>ner_head_word := None\<rparr> else ws ! k) [0..<length ws]
          | h # _ \<Rightarrow>
              map (\<lambda>k. if k = h
                        then (ws ! k)\<lparr>ner := Some \<lparr>ner_text = ent_text sp,
                                                    ner_words = find_span_words ws sp,
                                                    ner_span = (start_char sp, end_char sp),
                                                    ner_type = ent_label sp\<rparr>\<rparr>
                        else if k \<in> set (find_span_words ws sp)
                        then (ws ! k)\<lparr>ner_head_word := Some h\<rparr>
                        else ws ! k) [0..<length ws])
         rest"
    by (rule add_entities_step)
qed (use find_span_words_props[of ws sp] in simp_all)

theorem entity_head_selection_witness:
  "find_span_words ex_new_york ent_new_york = [2, 3]
   \<and> add_entities ex_new_york [ent_new_york] =
       [(mk_word 1 ''I'' ''I'' ''PRON'' ''nsubj'' 2 (Some 1))\<lparr>span := (0, 1)\<rparr>,
        (mk_word 2 ''visited'' ''visit'' ''VERB'' ''root'' 0 None)\<lparr>span := (2, 9)\<rparr>,
        (mk_word 3 ''New'' ''New'' ''PROPN'' ''compound'' 4 (Some 3))
          \<lparr>span := (10, 13), ner_head_word := Some 3\<rparr>,
        (mk_word 4 ''York'' ''York'' ''PROPN'' ''obj'' 2 (Some 1))
          \<lparr>span := (14, 18),
           ner := Some \<lparr>ner_text = ''New York'', ner_words = [2, 3], ner_span = (10, 18),
                         ner_type = ''GPE''\<rparr>\<rparr>]
   \<and> find_span_words ex_cyclic_pair ent_cyclic_pair = [0, 1]
   \<and> governor_word (ex_cyclic_pair ! 0) = Some 1 \<and> governor_word (ex_cyclic_pair ! 1) = Some 0
   \<and> ner_head_word (ex_cyclic_pair ! 0) = None \<and> ner_head_word (ex_cyclic_pair ! 1) = None
   \<and> add_entities ex_cyclic_pair [ent_cyclic_pair] = ex_cyclic_pair"
proof -
  note t1 = entity_head_selection[of ex_new_york ent_new_york "[]"]
  note t2 = entity_head_selection[of ex_cyclic_pair ent_cyclic_pair "[]"]
  have a: "find_span_words ex_new_york ent_new_york = [2, 3]"
    "find_span_words ex_cyclic_pair ent_cyclic_pair = [0, 1]"
    "governor_word (ex_cyclic_pair ! 0) = Some 1" "governor_word (ex_cyclic_pair ! 1) = Some 0"
    "ner_head_word (ex_cyclic_pair ! 0) = None" "ner_head_word (ex_cyclic_pair ! 1) = None"
    by code_simp+
  have b: "add_entities ex_new_york [ent_new_york] =
       [(mk_word 1 ''I'' ''I'' ''PRON'' ''nsubj'' 2 (Some 1))\<lparr>span := (0, 1)\<rparr>,
        (mk_word 2 ''visited'' ''visit'' ''VERB'' ''root'' 0 None)\<lparr>span := (2, 9)\<rparr>,
        (mk_word 3 ''New'' ''New'' ''PROPN'' ''compound'' 4 (Some 3))
          \<lparr>span := (10, 13), ner_head_word := Some 3\<rparr>,
        (mk_word 4 ''York'' ''York'' ''PROPN'' ''obj'' 2 (Some 1))
          \<lparr>span := (14, 18),
           ner := Some \<lparr>ner_text = ''New York'', ner_words = [2, 3], ner_span = (10, 18),
                         ner_type = ''GPE''\<rparr>\<rparr>]"
    unfolding t1[THEN conjunct2, THEN conjunct2, THEN conjunct1]
      t1[THEN conjunct2, THEN conjunct1]
    by code_simp
  have nil: "filter (\<lambda>k. case governor_word (ex_cyclic_pair ! k) of
                          None \<Rightarrow> True
                        | Some g \<Rightarrow> g \<notin> set (find_span_words ex_cyclic_pair ent_cyclic_pair))
             (find_span_words ex_cyclic_pair ent_cyclic_pair) = []"
    by code_simp
  have none: "\<forall>k\<in>set (find_span_words ex_cyclic_pair ent_cyclic_pair).
                ner_head_word (ex_cyclic_pair ! k) = None"
    by code_simp
  have c: "add_entities ex_cyclic_pair [ent_cyclic_pair] = ex_cyclic_pair"
    using t2[THEN conjunct2, THEN conjunct2, THEN conjunct2] nil none by blast
  from a b c show ?thesis by simp
qed

text \<open>
  The same through the conversion of a sentence: ``I visited New York'' with its entity.
\<close>

lemma conversion_attaches_entity:
  "spacy_to_ud_sentence 0 ex_new_york_sentence =
     Inr (\<lparr>word_nodes =
             [(mk_word 1 ''I'' ''I'' ''PRON'' ''nsubj'' 2 (Some 1))\<lparr>span := (0, 1)\<rparr>,
              (mk_word 2 ''visited'' ''visit'' ''VERB'' ''root'' 0 None)
                \<lparr>wn_id := 1, span := (2, 9)\<rparr>,
              (mk_word 3 ''New'' ''New'' ''PROPN'' ''compound'' 4 (Some 3))
                \<lparr>wn_id := 2, span := (10, 13), ner_head_word := Some 3\<rparr>,
              (mk_word 4 ''York'' ''York'' ''PROPN'' ''obj'' 2 (Some 1))
                \<lparr>wn_id := 3, span := (14, 18),
                 ner := Some \<lparr>ner_text = ''New York'', ner_words = [2, 3],
                               ner_span = (10, 18), ner_type = ''GPE''\<rparr>\<rparr>],
           sn_text = ''I visited New York''\<rparr>, [])"
  by code_simp

section \<open>Two inputs on which the conversion goes wrong\<close>

text \<open>
  Claim C2 fails on the code. A word labelled \<^verbatim>\<open>pcomp\<close> whose immediate governor is the
  root of the sentence has a governor that is not labelled \<^verbatim>\<open>prep\<close>; \<^verbatim>\<open>pcomp_to_ud\<close> then
  builds its diagnostic from the text of the governor's governor, which is \<^verbatim>\<open>None\<close>, and
  the conversion of ``By doing nothing.'' raises \<^verbatim>\<open>AttributeError\<close> instead of printing.
\<close>

theorem pcomp_under_root_raises:
  "spacy_to_ud_doc 0 ex_by_doing_nothing = Inl AttributeError"
  by code_simp

text \<open>
  Claim C1 fails on the code. The positions the words get are the tokens' indices in the
  document plus one, but \<^verbatim>\<open>add_governor_word\<close> uses a governor position as an index into
  the sentence. In the second sentence of ``Go Dogs bark loudly'' the tokens are
  numbered as the parser numbers them and every head lies in the sentence, yet the
  conversion governs ``Dogs'' by ``loudly'' and ``loudly'' by itself.
\<close>

theorem second_sentence_governors:
  "map (map tok_i \<circ> sp_tokens) (sents ex_go_dogs_bark) = [[0], [1, 2, 3]]
   \<and> map (map tok_head_i \<circ> sp_tokens) (sents ex_go_dogs_bark) = [[0], [2, 2, 2]]
   \<and> spacy_to_ud_doc 0 ex_go_dogs_bark =
       Inr (\<lparr>sentences =
               [\<lparr>word_nodes =
                   [(mk_word 1 ''Go'' ''go'' ''VERB'' ''root'' 0 None)\<lparr>span := (0, 2)\<rparr>],
                 sn_text = ''Go''\<rparr>,
                \<lparr>word_nodes =
                   [(mk_word 2 ''Dogs'' ''dog'' ''NOUN'' ''nsubj'' 3 (Some 2))
                      \<lparr>wn_id := 1, span := (3, 7)\<rparr>,
                    (mk_word 3 ''bark'' ''bark'' ''VERB'' ''root'' 0 None)
                      \<lparr>wn_id := 2, span := (8, 12)\<rparr>,
                    (mk_word 4 ''loudly'' ''loudly'' ''ADV'' ''advmod'' 3 (Some 2))
                      \<lparr>wn_id := 3, span := (13, 19)\<rparr>],
                 sn_text = ''Dogs bark loudly''\<rparr>]\<rparr>, [])"
  by code_simp

section \<open>Contained anomalies, and governor resolution in a first sentence\<close>

text \<open>
  Where the anomalies of the rules are contained: the diagnostic is printed and the
  sentence is left as it is.
\<close>

lemma pobj_without_preps:
  assumes "dependency_relation (ws ! w) = ''pobj''" and "governor_word (ws ! w) = Some x"
    and "dependency_relation (ws ! x) \<notin> set [''iobj'', ''agent'', ''prep'']"
  shows "apply_rule ws w = Inr (ws, [''pobj without preps, word: '' @ wn_text (ws ! w)])"
proof -
  have "prep_loop ws (Some x) [] = Some (Inr (Some x, []))"
    using assms(3) by (subst prep_loop.simps) simp
  then have "prep_chain ws w = Inr (Some x, [])"
    using assms by (simp add: prep_chain_def)
  then show ?thesis
    using assms(1) by (simp add: apply_rule_def pobj_to_ud_def)
qed

lemma attr_without_be:
  assumes "dependency_relation (ws ! w) = ''attr''" and "governor_word (ws ! w) = Some b"
    and "wn_lemma (ws ! b) \<noteq> ''be''"
  shows "apply_rule ws w =
           Inr (ws, [''Dep attr used with something other than to be: '' @ wn_text (ws ! b)
                     @ '' <-attr- '' @ wn_text (ws ! w)])"
  using assms by (simp add: apply_rule_def attr_to_ud_def)

lemma pcomp_without_prep:
  assumes "dependency_relation (ws ! w) = ''pcomp''" and "governor_word (ws ! w) = Some p"
    and "\<not> (upos (ws ! w) = ''ADP'' \<and> upos (ws ! p) = ''SCONJ'')"
    and "dependency_relation (ws ! p) \<noteq> ''prep''" and "governor_word (ws ! p) = Some g"
  shows "apply_rule ws w =
           Inr (ws, [''No prep dependency in: '' @ wn_text (ws ! g) @ '' <-''
                     @ dependency_relation (ws ! p) @ ''- '' @ wn_text (ws ! p)
                     @ '' <-pcomp- '' @ wn_text (ws ! w)])"
  using assms by (simp add: apply_rule_def pcomp_to_ud_def)

text \<open>Where it is not: the governor of the \<^verbatim>\<open>pcomp\<close> word has no governor.\<close>

lemma pcomp_under_root:
  assumes "dependency_relation (ws ! w) = ''pcomp''" and "governor_word (ws ! w) = Some p"
    and "\<not> (upos (ws ! w) = ''ADP'' \<and> upos (ws ! p) = ''SCONJ'')"
    and "governor_word (ws ! p) = None"
  shows "apply_rule ws w = Inl AttributeError"
  using assms by (simp add: apply_rule_def pcomp_to_ud_def)

text \<open>An exception raised by a rule ends the pass; the words after it are not visited.\<close>

lemma rule_pass_raises:
  "apply_rule ws k = Inl e \<Longrightarrow> rule_pass (k # ks) ws = Inl e"
  by simp

text \<open>
  \<^verbatim>\<open>add_governor_word\<close> in closed form, when no governor position lies past the end of the
  sentence.
\<close>

lemma length_add_governor_loop:
  "add_governor_loop ks ws = Inr ws' \<Longrightarrow> length ws' = length ws"
  by (induction ks arbitrary: ws) (auto simp: Let_def split: if_splits)

lemma add_governor_loop_nth:
  assumes "distinct ks" and "\<forall>j\<in>set ks. j < length ws"
    and "\<forall>j\<in>set ks. governor (ws ! j) \<le> int (length ws)"
  shows "\<exists>ws'. add_governor_loop ks ws = Inr ws' \<and> length ws' = length ws
           \<and> (\<forall>k<length ws. ws' ! k =
                 (if k \<in> set ks \<and> governor (ws ! k) > 0
                  then (ws ! k)\<lparr>governor_word := Some (nat (governor (ws ! k) - 1))\<rparr>
                  else ws ! k))"
  using assms
proof (induction ks arbitrary: ws)
  case Nil
  then show ?case by simp
next
  case (Cons j ks)
  let ?ws1 = "if governor (ws ! j) > 0
              then ws[j := (ws ! j)\<lparr>governor_word := Some (nat (governor (ws ! j) - 1))\<rparr>]
              else ws"
  have step: "add_governor_loop (j # ks) ws = add_governor_loop ks ?ws1"
    using Cons.prems by (simp add: Let_def)
  have gov1: "governor (?ws1 ! i) = governor (ws ! i)" if "i < length ws" for i
    using that by (cases "i = j") simp_all
  have pre: "distinct ks" "\<forall>i\<in>set ks. i < length ?ws1"
    "\<forall>i\<in>set ks. governor (?ws1 ! i) \<le> int (length ?ws1)"
    using Cons.prems gov1 by auto
  obtain ws' where r: "add_governor_loop ks ?ws1 = Inr ws'" "length ws' = length ?ws1"
    "\<forall>k<length ?ws1. ws' ! k =
                 (if k \<in> set ks \<and> governor (?ws1 ! k) > 0
                  then (?ws1 ! k)\<lparr>governor_word := Some (nat (governor (?ws1 ! k) - 1))\<rparr>
                  else ?ws1 ! k)"
    using Cons.IH[OF pre] by blast
  have "ws' ! k = (if k \<in> set (j # ks) \<and> governor (ws ! k) > 0
                  then (ws ! k)\<lparr>governor_word := Some (nat (governor (ws ! k) - 1))\<rparr>
                  else ws ! k)" if k: "k < length ws" for k
  proof (cases "k = j")
    case True
    then have "k \<notin> set ks" using Cons.prems by simp
    then show ?thesis using r(3) k True by simp
  next
    case False
    then show ?thesis using r(3) k gov1[OF k] by simp
  qed
  then show ?case using step r by simp
qed

lemma add_governor_word_eq:
  assumes "\<forall>k<length ws. governor (ws ! k) \<le> int (length ws)"
  shows "add_governor_word ws =
           Inr (map (\<lambda>w. if governor w > 0
                          then w\<lparr>governor_word := Some (nat (governor w - 1))\<rparr> else w) ws)"
proof -
  obtain ws' where r: "add_governor_loop [0..<length ws] ws = Inr ws'" "length ws' = length ws"
    "\<forall>k<length ws. ws' ! k =
                 (if k \<in> set [0..<length ws] \<and> governor (ws ! k) > 0
                  then (ws ! k)\<lparr>governor_word := Some (nat (governor (ws ! k) - 1))\<rparr>
                  else ws ! k)"
    using add_governor_loop_nth[of "[0..<length ws]" ws] assms by auto
  have "ws' = map (\<lambda>w. if governor w > 0
                          then w\<lparr>governor_word := Some (nat (governor w - 1))\<rparr> else w) ws"
    using r by (intro nth_equalityI) simp_all
  then show ?thesis using r(1) by (simp add: add_governor_word_def)
qed

text \<open>
  In a sentence whose positions count from one, as in the first sentence of a
  document, the governor that \<^verbatim>\<open>add_governor_word\<close> resolves is the word at the governor
  position.
\<close>

lemma add_governor_word_first_sentence:
  assumes "\<forall>k<length ws. index (ws ! k) = int k + 1"
    and "\<forall>k<length ws. governor (ws ! k) \<le> int (length ws)"
    and "k < length ws" and "governor (ws ! k) > 0"
  shows "\<exists>ws' g. add_governor_word ws = Inr ws' \<and> governor_word (ws' ! k) = Some g
           \<and> g < length ws' \<and> index (ws' ! g) = governor (ws' ! k)"
proof -
  let ?g = "nat (governor (ws ! k) - 1)"
  have g: "?g < length ws" using assms(2,3,4) by (auto simp: nat_less_iff)
  have "index (ws ! ?g) = governor (ws ! k)"
    using assms(1,4) g by simp
  then show ?thesis
    using add_governor_word_eq[OF assms(2)] assms(3,4) g by simp
qed

section \<open>The cleanup after the pass\<close>

lemma cleanup_invD:
  assumes "cleanup_inv ws" and "k < length ws"
  shows "governor_word (ws ! k) = Some g \<Longrightarrow> g < length ws"
    and "dependency_relation (ws ! k) = ''advmod'' \<Longrightarrow> governor_word (ws ! k) \<noteq> None"
    and "dependency_relation (ws ! k) = ''advmod'' \<Longrightarrow> wn_lemma (ws ! k) \<noteq> ''be''"
  using assms by (auto simp: cleanup_inv_def list_all_length split: option.splits)

lemma cleanup_invI:
  assumes "\<And>k g. k < length ws \<Longrightarrow> governor_word (ws ! k) = Some g \<Longrightarrow> g < length ws"
    and "\<And>k. k < length ws \<Longrightarrow> dependency_relation (ws ! k) = ''advmod'' \<Longrightarrow>
           governor_word (ws ! k) \<noteq> None \<and> wn_lemma (ws ! k) \<noteq> ''be''"
  shows "cleanup_inv ws"
  using assms by (auto simp: cleanup_inv_def list_all_length split: option.splits)

lemma copula_result_index:
  "i < length ws \<Longrightarrow> index (copula_result ws h b ! i) = index (ws ! i)"
  by (simp add: copula_result_nth)

lemma copula_result_lemma:
  "i < length ws \<Longrightarrow> wn_lemma (copula_result ws h b ! i) = wn_lemma (ws ! i)"
  by (simp add: copula_result_nth)

lemma cleanup_inv_copula_result:
  assumes inv: "cleanup_inv ws" and k: "k < length ws" and g: "g < length ws"
    and be: "wn_lemma (ws ! g) = ''be''"
  shows "cleanup_inv (copula_result ws k g)"
proof (rule cleanup_invI)
  have gadv: "dependency_relation (ws ! g) \<noteq> ''advmod''"
    using cleanup_invD(3)[OF inv g] be by blast
  fix i assume "i < length (copula_result ws k g)"
  then have i: "i < length ws" by simp
  {
    fix j assume "governor_word (copula_result ws k g ! i) = Some j"
    then show "j < length (copula_result ws k g)"
      using i k g cleanup_invD(1)[OF inv i] cleanup_invD(1)[OF inv g]
      by (auto simp: copula_result_nth split: if_splits)
  }
  {
    assume "dependency_relation (copula_result ws k g ! i) = ''advmod''"
    then show "governor_word (copula_result ws k g ! i) \<noteq> None
               \<and> wn_lemma (copula_result ws k g ! i) \<noteq> ''be''"
      using i gadv cleanup_invD(2,3)[OF inv i]
      by (auto simp: copula_result_nth split: if_splits)
  }
qed

text \<open>One step of the cleanup, on a sentence that satisfies the invariant.\<close>

lemma fix_advmod_step_inv:
  assumes inv: "cleanup_inv ws" and k: "k < length ws"
  shows "fix_advmod_step ws k =
           (case governor_word (ws ! k) of
              None \<Rightarrow> Inr ws
            | Some g \<Rightarrow>
                if dependency_relation (ws ! k) = ''advmod'' \<and> wn_lemma (ws ! g) = ''be''
                   \<and> dependency_relation (ws ! g) \<noteq> ''cop'' \<and> \<not> existential ws g
                then Inr (copula_result ws k g) else Inr ws)"
proof (cases "dependency_relation (ws ! k) = ''advmod''")
  case False
  then show ?thesis by (simp add: fix_advmod_step_def split: option.splits)
next
  case True
  then obtain g where gw: "governor_word (ws ! k) = Some g"
    using cleanup_invD(2)[OF inv k] by auto
  have g: "g < length ws" using cleanup_invD(1)[OF inv k gw] .
  show ?thesis
  proof (cases "wn_lemma (ws ! g) = ''be'' \<and> dependency_relation (ws ! g) \<noteq> ''cop''")
    case False
    then show ?thesis using True gw by (auto simp: fix_advmod_step_def)
  next
    case be: True
    have "k \<noteq> g" using cleanup_invD(3)[OF inv k True] be by auto
    then have "fst (make_copula ws k g) =
                 (if existential ws g then ws else copula_result ws k g)"
      using make_copula_eq[OF k g] by simp
    then show ?thesis using True gw be by (simp add: fix_advmod_step_def)
  qed
qed

lemma fix_advmod_loop_append:
  "fix_advmod_loop (xs @ ys) ws =
     (case fix_advmod_loop xs ws of Inl e \<Rightarrow> Inl e | Inr ws1 \<Rightarrow> fix_advmod_loop ys ws1)"
  by (induction xs arbitrary: ws) (simp_all split: sum.splits)

text \<open>
  Making \<open>k\<close> the head over \<open>g\<close> leaves the \<^verbatim>\<open>expl\<close> dependents of another word \<open>b\<close> as
  they are, when neither \<open>k\<close> nor \<open>g\<close> is one of them.
\<close>

lemma expl_dependents_copula_result:
  assumes i: "i < length ws"
    and k: "dependency_relation (ws ! k) \<noteq> ''expl''"
    and g: "\<not> (governor_word (ws ! g) = Some b \<and> dependency_relation (ws ! g) = ''expl'')"
  shows "(governor_word (copula_result ws k g ! i) = Some b
            \<and> dependency_relation (copula_result ws k g ! i) = ''expl'')
         \<longleftrightarrow> (governor_word (ws ! i) = Some b \<and> dependency_relation (ws ! i) = ''expl'')"
proof -
  have "''expl'' \<notin> set redirectable" by (simp add: redirectable_def)
  then show ?thesis
    using i k g by (auto simp: copula_result_nth)
qed

lemma find_governed_expl_copula_result:
  assumes k: "dependency_relation (ws ! k) \<noteq> ''expl''"
    and g: "\<not> (governor_word (ws ! g) = Some b \<and> dependency_relation (ws ! g) = ''expl'')"
  shows "find_governed (copula_result ws k g) b ''expl'' = find_governed ws b ''expl''"
  unfolding find_governed_def
  by (rule find_cong) (simp_all add: expl_dependents_copula_result[OF _ k g])

lemma existential_copula_result:
  assumes k: "dependency_relation (ws ! k) \<noteq> ''expl''"
    and g: "\<not> (governor_word (ws ! g) = Some b \<and> dependency_relation (ws ! g) = ''expl'')"
  shows "existential (copula_result ws k g) b \<longleftrightarrow> existential ws b"
proof (cases "find_governed ws b ''expl''")
  case None
  then show ?thesis
    by (simp add: existential_def find_governed_expl_copula_result[OF k g])
next
  case (Some e)
  then have "e < length ws" by (rule find_governed_lt)
  then show ?thesis
    using Some
    by (simp add: existential_def find_governed_expl_copula_result[OF k g] copula_result_lemma)
qed

lemma before_head_step:
  assumes inv: "cleanup_inv ws" and bh: "before_head ws b r"
    and k: "k < length ws" and rk: "r < k"
  shows "\<exists>ws'. fix_advmod_step ws k = Inr ws' \<and> cleanup_inv ws' \<and> length ws' = length ws
           \<and> before_head ws' b r \<and> index (ws' ! r) = index (ws ! r)"
proof (cases "\<exists>g. governor_word (ws ! k) = Some g
                 \<and> dependency_relation (ws ! k) = ''advmod'' \<and> wn_lemma (ws ! g) = ''be''
                 \<and> dependency_relation (ws ! g) \<noteq> ''cop'' \<and> \<not> existential ws g")
  case False
  then have "fix_advmod_step ws k = Inr ws"
    using fix_advmod_step_inv[OF inv k] by (auto split: option.splits)
  then show ?thesis using inv bh by simp
next
  case True
  then obtain g where gw: "governor_word (ws ! k) = Some g"
    and adv: "dependency_relation (ws ! k) = ''advmod''"
    and be: "wn_lemma (ws ! g) = ''be''" and ncop: "dependency_relation (ws ! g) \<noteq> ''cop''"
    and nex: "\<not> existential ws g"
    by blast
  have g: "g < length ws" using cleanup_invD(1)[OF inv k gw] .
  have b: "b < length ws" and r: "r < length ws" and bbe: "wn_lemma (ws ! b) = ''be''"
    and bncop: "dependency_relation (ws ! b) \<noteq> ''cop''"
    and bnex: "\<not> existential ws b"
    and bexpl: "\<And>e. e < length ws \<Longrightarrow> governor_word (ws ! e) = Some b
            \<and> dependency_relation (ws ! e) = ''expl'' \<Longrightarrow> wn_lemma (ws ! e) \<noteq> ''be''"
    and radv: "dependency_relation (ws ! r) = ''advmod''"
    and rgw: "governor_word (ws ! r) = Some b"
    and last: "\<And>j. j < length ws \<Longrightarrow> r < j \<Longrightarrow>
           \<not> (dependency_relation (ws ! j) = ''advmod'' \<and> governor_word (ws ! j) = Some b)"
    using bh by (auto simp: before_head_def)
  have step: "fix_advmod_step ws k = Inr (copula_result ws k g)"
    using fix_advmod_step_inv[OF inv k] gw adv be ncop nex by simp
  have gb: "g \<noteq> b" using last[OF k rk] adv gw by auto
  have kb: "k \<noteq> b" using cleanup_invD(3)[OF inv k adv] bbe by auto
  have rg: "r \<noteq> g" using cleanup_invD(3)[OF inv r radv] be by auto
  have rk': "r \<noteq> k" using rk by simp
  have gadv: "dependency_relation (ws ! g) \<noteq> ''advmod''"
    using cleanup_invD(3)[OF inv g] be by blast
  have kexpl: "dependency_relation (ws ! k) \<noteq> ''expl''" using adv by simp
  have gexpl: "\<not> (governor_word (ws ! g) = Some b \<and> dependency_relation (ws ! g) = ''expl'')"
    using bexpl[OF g] be by blast
  have "before_head (copula_result ws k g) b r"
    unfolding before_head_def
  proof (intro conjI allI impI)
    show "b < length (copula_result ws k g)" "r < length (copula_result ws k g)"
      using b r by simp_all
    show "wn_lemma (copula_result ws k g ! b) = ''be''"
      using b bbe by (simp add: copula_result_lemma)
    show "dependency_relation (copula_result ws k g ! b) \<noteq> ''cop''"
      using b bncop gb kb by (simp add: copula_result_nth)
    show "\<not> existential (copula_result ws k g) b"
      using bnex by (simp add: existential_copula_result[OF kexpl gexpl])
    show "dependency_relation (copula_result ws k g ! r) = ''advmod''"
      using r radv rg rk' by (simp add: copula_result_nth)
    show "governor_word (copula_result ws k g ! r) = Some b"
      using r rgw rg rk' gb by (simp add: copula_result_nth)
  next
    fix e assume "e < length (copula_result ws k g)"
      and c: "governor_word (copula_result ws k g ! e) = Some b
              \<and> dependency_relation (copula_result ws k g ! e) = ''expl''"
    then have e: "e < length ws" by simp
    have "governor_word (ws ! e) = Some b \<and> dependency_relation (ws ! e) = ''expl''"
      using c expl_dependents_copula_result[OF e kexpl gexpl] by blast
    then show "wn_lemma (copula_result ws k g ! e) \<noteq> ''be''"
      using bexpl[OF e] e by (simp add: copula_result_lemma)
  next
    fix j assume "j < length (copula_result ws k g)" and rj: "r < j"
    then have j: "j < length ws" by simp
    show "\<not> (dependency_relation (copula_result ws k g ! j) = ''advmod''
              \<and> governor_word (copula_result ws k g ! j) = Some b)"
      using j last[OF j rj] gadv kb
      by (auto simp: copula_result_nth)
  qed
  then show ?thesis
    using step cleanup_inv_copula_result[OF inv k g be] r by (simp add: copula_result_index)
qed

lemma before_head_loop:
  assumes "cleanup_inv ws" and "before_head ws b r" and "\<forall>k\<in>set ks. k < length ws \<and> r < k"
  shows "\<exists>ws'. fix_advmod_loop ks ws = Inr ws' \<and> cleanup_inv ws' \<and> length ws' = length ws
           \<and> before_head ws' b r \<and> index (ws' ! r) = index (ws ! r)"
  using assms
proof (induction ks arbitrary: ws)
  case Nil
  then show ?case by simp
next
  case (Cons k ks)
  then obtain ws1 where s: "fix_advmod_step ws k = Inr ws1" "cleanup_inv ws1"
    "length ws1 = length ws" "before_head ws1 b r" "index (ws1 ! r) = index (ws ! r)"
    using before_head_step[of ws b r k] by auto
  then obtain ws' where "fix_advmod_loop ks ws1 = Inr ws'" "cleanup_inv ws'"
    "length ws' = length ws1" "before_head ws' b r" "index (ws' ! r) = index (ws1 ! r)"
    using Cons.IH[of ws1] Cons.prems by auto
  then show ?case using s by simp
qed

lemma head_step:
  assumes inv: "cleanup_inv ws" and bh: "before_head ws b r"
  shows "\<exists>ws'. fix_advmod_step ws r = Inr ws' \<and> cleanup_inv ws' \<and> length ws' = length ws
           \<and> after_head ws' b r \<and> index (ws' ! r) = index (ws ! r)"
proof -
  have b: "b < length ws" and r: "r < length ws" and bbe: "wn_lemma (ws ! b) = ''be''"
    and bncop: "dependency_relation (ws ! b) \<noteq> ''cop''"
    and bnex: "\<not> existential ws b"
    and radv: "dependency_relation (ws ! r) = ''advmod''"
    and rgw: "governor_word (ws ! r) = Some b"
    using bh by (auto simp: before_head_def)
  have step: "fix_advmod_step ws r = Inr (copula_result ws r b)"
    using fix_advmod_step_inv[OF inv r] rgw radv bbe bncop bnex by simp
  have rb: "r \<noteq> b" and rl: "wn_lemma (ws ! r) \<noteq> ''be''"
    using cleanup_invD(3)[OF inv r radv] bbe by auto
  have "after_head (copula_result ws r b) b r"
    using b r rb rl by (simp add: after_head_def copula_result_nth)
  then show ?thesis
    using step cleanup_inv_copula_result[OF inv r b bbe] r
    by (simp add: copula_result_index)
qed

lemma after_head_step:
  assumes inv: "cleanup_inv ws" and ah: "after_head ws b r" and k: "k < length ws"
  shows "\<exists>ws'. fix_advmod_step ws k = Inr ws' \<and> cleanup_inv ws' \<and> length ws' = length ws
           \<and> after_head ws' b r \<and> index (ws' ! r) = index (ws ! r)"
proof (cases "\<exists>g. governor_word (ws ! k) = Some g
                 \<and> dependency_relation (ws ! k) = ''advmod'' \<and> wn_lemma (ws ! g) = ''be''
                 \<and> dependency_relation (ws ! g) \<noteq> ''cop'' \<and> \<not> existential ws g")
  case False
  then have "fix_advmod_step ws k = Inr ws"
    using fix_advmod_step_inv[OF inv k] by (auto split: option.splits)
  then show ?thesis using inv ah by simp
next
  case True
  then obtain g where gw: "governor_word (ws ! k) = Some g"
    and adv: "dependency_relation (ws ! k) = ''advmod''"
    and be: "wn_lemma (ws ! g) = ''be''" and ncop: "dependency_relation (ws ! g) \<noteq> ''cop''"
    and nex: "\<not> existential ws g"
    by blast
  have g: "g < length ws" using cleanup_invD(1)[OF inv k gw] .
  have b: "b < length ws" and r: "r < length ws" and rl: "wn_lemma (ws ! r) \<noteq> ''be''"
    and bcop: "dependency_relation (ws ! b) = ''cop''" and baux: "upos (ws ! b) = ''AUX''"
    and bgw: "governor_word (ws ! b) = Some r" and bgov: "governor (ws ! b) = index (ws ! r)"
    using ah by (auto simp: after_head_def)
  have step: "fix_advmod_step ws k = Inr (copula_result ws k g)"
    using fix_advmod_step_inv[OF inv k] gw adv be ncop nex by simp
  have bk: "b \<noteq> k" using adv bcop by auto
  have bg: "b \<noteq> g" using ncop bcop by auto
  have rg: "r \<noteq> g" using rl be by auto
  have "after_head (copula_result ws k g) b r"
    using b r rl bcop baux bgw bgov bk bg rg
    by (auto simp: after_head_def copula_result_nth)
  then show ?thesis
    using step cleanup_inv_copula_result[OF inv k g be] r
    by (simp add: copula_result_index)
qed

lemma after_head_loop:
  assumes "cleanup_inv ws" and "after_head ws b r" and "\<forall>k\<in>set ks. k < length ws"
  shows "\<exists>ws'. fix_advmod_loop ks ws = Inr ws' \<and> length ws' = length ws
           \<and> after_head ws' b r \<and> index (ws' ! r) = index (ws ! r)"
  using assms
proof (induction ks arbitrary: ws)
  case Nil
  then show ?case by simp
next
  case (Cons k ks)
  then obtain ws1 where s: "fix_advmod_step ws k = Inr ws1" "cleanup_inv ws1"
    "length ws1 = length ws" "after_head ws1 b r" "index (ws1 ! r) = index (ws ! r)"
    using after_head_step[of ws b r k] by auto
  then obtain ws' where "fix_advmod_loop ks ws1 = Inr ws'"
    "length ws' = length ws1" "after_head ws' b r" "index (ws' ! r) = index (ws1 ! r)"
    using Cons.IH[of ws1] Cons.prems by auto
  then show ?case using s by simp
qed

lemma rev_upt_split:
  assumes "r < n"
  shows "rev [0..<n] = rev [Suc r..<n] @ r # rev [0..<r]"
proof -
  have "[0..<n] = [0..<r] @ r # [Suc r..<n]"
    using assms by (metis less_imp_le_nat upt_add_eq_append upt_conv_Cons le0 le_add_diff_inverse)
  then show ?thesis by simp
qed

lemma rightmost_adverb_heads:
  assumes inv: "cleanup_inv ws" and bh: "before_head ws b r"
  shows "\<exists>ws'. fix_advmod_cop ws = Inr ws' \<and> length ws' = length ws
           \<and> dependency_relation (ws' ! b) = ''cop'' \<and> upos (ws' ! b) = ''AUX''
           \<and> governor_word (ws' ! b) = Some r \<and> governor (ws' ! b) = index (ws ! r)"
proof -
  have r: "r < length ws" using bh by (simp add: before_head_def)
  obtain ws1 where 1: "fix_advmod_loop (rev [Suc r..<length ws]) ws = Inr ws1"
    "cleanup_inv ws1" "length ws1 = length ws" "before_head ws1 b r"
    "index (ws1 ! r) = index (ws ! r)"
    using before_head_loop[OF inv bh, of "rev [Suc r..<length ws]"] by auto
  obtain ws2 where 2: "fix_advmod_step ws1 r = Inr ws2" "cleanup_inv ws2"
    "length ws2 = length ws1" "after_head ws2 b r" "index (ws2 ! r) = index (ws1 ! r)"
    using head_step[OF 1(2) 1(4)] by auto
  obtain ws3 where 3: "fix_advmod_loop (rev [0..<r]) ws2 = Inr ws3"
    "length ws3 = length ws2" "after_head ws3 b r" "index (ws3 ! r) = index (ws2 ! r)"
    using after_head_loop[OF 2(2) 2(4), of "rev [0..<r]"] r 1(3) 2(3) by auto
  have "fix_advmod_cop ws = Inr ws3"
    using 1(1) 2(1) 3(1) by (simp add: fix_advmod_cop_def rev_upt_split[OF r] fix_advmod_loop_append)
  then show ?thesis
    using 3 2 1 by (auto simp: after_head_def)
qed

lemma fix_advmod_loop_foldl:
  "fix_advmod_loop ks ws =
     foldl (\<lambda>st k. case st of Inl e \<Rightarrow> Inl e | Inr s \<Rightarrow> fix_advmod_step s k) (Inr ws) ks"
proof (induction ks arbitrary: ws)
  case Nil
  then show ?case by simp
next
  case (Cons k ks)
  have stuck: "foldl (\<lambda>st k. case st of Inl e \<Rightarrow> Inl e | Inr s \<Rightarrow> fix_advmod_step s k) (Inl e) js
                 = Inl e" for e js
    by (induction js) simp_all
  show ?case using Cons.IH by (cases "fix_advmod_step ws k") (simp_all add: stuck)
qed

text \<open>
  Claim C8, as amended. The cleanup \<^verbatim>\<open>fix_advmod_cop\<close> visits the positions of the sentence
  from the last to the first and runs one step at each, on the sentence the steps before
  have left. A step, on any sentence \<open>s\<close>, at a word labelled \<^verbatim>\<open>advmod\<close> whose governor has
  lemma ``be'' and is not labelled \<^verbatim>\<open>cop\<close>, applies \<^verbatim>\<open>make_copula\<close> to the word and its
  governor (which refuses an existential governor); it raises when such a word has no
  governor, and changes nothing otherwise. Consequently: let every governor be a word of
  the sentence and every word labelled \<^verbatim>\<open>advmod\<close> have a governor and a lemma other than
  ``be''; let \<open>b\<close> be a ``be'' word that is not labelled \<^verbatim>\<open>cop\<close>, whose first \<^verbatim>\<open>expl\<close>
  dependent, if it has one, does not have lemma ``there'', and none of whose \<^verbatim>\<open>expl\<close>
  dependents has lemma ``be''; and let \<open>r\<close> be the rightmost word labelled \<^verbatim>\<open>advmod\<close> that
  \<open>b\<close> governs. Then the cleanup returns, and in the sentence it leaves \<open>b\<close> is the \<^verbatim>\<open>cop\<close>
  of \<open>r\<close>, with part of speech \<^verbatim>\<open>AUX\<close>.
\<close>

theorem advmod_cleanup_rightmost:
  "fix_advmod_cop ws =
     foldl (\<lambda>st k. case st of Inl e \<Rightarrow> Inl e | Inr s \<Rightarrow> fix_advmod_step s k)
       (Inr ws) (rev [0..<length ws])
   \<and> fix_advmod_step s k =
       (if dependency_relation (s ! k) = ''advmod'' then
          (case governor_word (s ! k) of
             None \<Rightarrow> Inl AttributeError
           | Some g \<Rightarrow>
               if wn_lemma (s ! g) = ''be'' \<and> dependency_relation (s ! g) \<noteq> ''cop''
               then Inr (fst (make_copula s k g)) else Inr s)
        else Inr s)
   \<and> (list_all (\<lambda>w. case governor_word w of None \<Rightarrow> True | Some g \<Rightarrow> g < length ws) ws
        \<and> list_all (\<lambda>w. dependency_relation w = ''advmod'' \<longrightarrow>
                           governor_word w \<noteq> None \<and> wn_lemma w \<noteq> ''be'') ws
        \<and> b < length ws \<and> wn_lemma (ws ! b) = ''be''
        \<and> dependency_relation (ws ! b) \<noteq> ''cop''
        \<and> \<not> (case filter (\<lambda>k. governor_word (ws ! k) = Some b
                                 \<and> dependency_relation (ws ! k) = ''expl'') [0..<length ws] of
                [] \<Rightarrow> False
              | e # _ \<Rightarrow> wn_lemma (ws ! e) = ''there'')
        \<and> list_all (\<lambda>w. \<not> (governor_word w = Some b \<and> dependency_relation w = ''expl''
                              \<and> wn_lemma w = ''be'')) ws
        \<and> r < length ws \<and> dependency_relation (ws ! r) = ''advmod''
        \<and> governor_word (ws ! r) = Some b
        \<and> list_all (\<lambda>j. \<not> (dependency_relation (ws ! j) = ''advmod''
                              \<and> governor_word (ws ! j) = Some b)) [Suc r..<length ws]
      \<longrightarrow> (case fix_advmod_cop ws of
             Inl e \<Rightarrow> False
           | Inr ws' \<Rightarrow>
               length ws' = length ws
               \<and> dependency_relation (ws' ! b) = ''cop'' \<and> upos (ws' ! b) = ''AUX''
               \<and> governor_word (ws' ! b) = Some r \<and> governor (ws' ! b) = index (ws ! r)))"
proof (intro conjI impI)
  show "fix_advmod_cop ws =
     foldl (\<lambda>st k. case st of Inl e \<Rightarrow> Inl e | Inr s \<Rightarrow> fix_advmod_step s k)
       (Inr ws) (rev [0..<length ws])"
    by (simp add: fix_advmod_cop_def fix_advmod_loop_foldl)
next
  show "fix_advmod_step s k =
       (if dependency_relation (s ! k) = ''advmod'' then
          (case governor_word (s ! k) of
             None \<Rightarrow> Inl AttributeError
           | Some g \<Rightarrow>
               if wn_lemma (s ! g) = ''be'' \<and> dependency_relation (s ! g) \<noteq> ''cop''
               then Inr (fst (make_copula s k g)) else Inr s)
        else Inr s)"
    by (simp add: fix_advmod_step_def)
next
  assume h: "list_all (\<lambda>w. case governor_word w of None \<Rightarrow> True | Some g \<Rightarrow> g < length ws) ws
        \<and> list_all (\<lambda>w. dependency_relation w = ''advmod'' \<longrightarrow>
                           governor_word w \<noteq> None \<and> wn_lemma w \<noteq> ''be'') ws
        \<and> b < length ws \<and> wn_lemma (ws ! b) = ''be''
        \<and> dependency_relation (ws ! b) \<noteq> ''cop''
        \<and> \<not> (case filter (\<lambda>k. governor_word (ws ! k) = Some b
                                 \<and> dependency_relation (ws ! k) = ''expl'') [0..<length ws] of
                [] \<Rightarrow> False
              | e # _ \<Rightarrow> wn_lemma (ws ! e) = ''there'')
        \<and> list_all (\<lambda>w. \<not> (governor_word w = Some b \<and> dependency_relation w = ''expl''
                              \<and> wn_lemma w = ''be'')) ws
        \<and> r < length ws \<and> dependency_relation (ws ! r) = ''advmod''
        \<and> governor_word (ws ! r) = Some b
        \<and> list_all (\<lambda>j. \<not> (dependency_relation (ws ! j) = ''advmod''
                              \<and> governor_word (ws ! j) = Some b)) [Suc r..<length ws]"
  have inv: "cleanup_inv ws"
    using h by (simp add: cleanup_inv_def)
  have nex: "\<not> existential ws b"
    using h by (simp add: existential_filter)
  have "before_head ws b r"
    using h nex by (auto simp: before_head_def list_all_iff list_all_length)
  then obtain ws' where "fix_advmod_cop ws = Inr ws'" "length ws' = length ws"
    "dependency_relation (ws' ! b) = ''cop''" "upos (ws' ! b) = ''AUX''"
    "governor_word (ws' ! b) = Some r" "governor (ws' ! b) = index (ws ! r)"
    using rightmost_adverb_heads[OF inv] by blast
  then show "case fix_advmod_cop ws of
             Inl e \<Rightarrow> False
           | Inr ws' \<Rightarrow>
               length ws' = length ws
               \<and> dependency_relation (ws' ! b) = ''cop'' \<and> upos (ws' ! b) = ''AUX''
               \<and> governor_word (ws' ! b) = Some r \<and> governor (ws' ! b) = index (ws ! r)"
    by simp
qed

theorem advmod_cleanup_rightmost_witness:
  "list_all (\<lambda>w. case governor_word w of None \<Rightarrow> True
                   | Some g \<Rightarrow> g < length ex_there_is_hope) ex_there_is_hope
   \<and> list_all (\<lambda>w. dependency_relation w = ''advmod'' \<longrightarrow>
                         governor_word w \<noteq> None \<and> wn_lemma w \<noteq> ''be'') ex_there_is_hope
   \<and> wn_lemma (ex_there_is_hope ! 5) = ''be''
   \<and> dependency_relation (ex_there_is_hope ! 5) = ''conj''
   \<and> find_governed ex_there_is_hope 5 ''expl'' = None
   \<and> dependency_relation (ex_there_is_hope ! 6) = ''advmod''
   \<and> governor_word (ex_there_is_hope ! 6) = Some 5
   \<and> dependency_relation (ex_there_is_hope ! 7) = ''advmod''
   \<and> governor_word (ex_there_is_hope ! 7) = Some 5
   \<and> length ex_there_is_hope = 8
   \<and> governor_word (ex_there_is_hope ! 0) = Some 1
   \<and> dependency_relation (ex_there_is_hope ! 0) = ''expl''
   \<and> wn_lemma (ex_there_is_hope ! 0) = ''there''
   \<and> fix_advmod_cop ex_there_is_hope =
       Inr [mk_word 1 ''There'' ''there'' ''PRON'' ''expl'' 2 (Some 1),
            mk_word 2 ''is'' ''be'' ''VERB'' ''root'' 0 None,
            mk_word 3 ''hope'' ''hope'' ''NOUN'' ''nsubj'' 2 (Some 1),
            mk_word 4 ''and'' ''and'' ''CCONJ'' ''cc'' 8 (Some 7),
            mk_word 5 ''we'' ''we'' ''PRON'' ''nsubj'' 8 (Some 7),
            mk_word 6 ''are'' ''be'' ''AUX'' ''cop'' 8 (Some 7),
            mk_word 7 ''here'' ''here'' ''ADV'' ''advmod'' 8 (Some 7),
            mk_word 8 ''now'' ''now'' ''ADV'' ''conj'' 2 (Some 1)]
   \<and> governor_word ([mk_word 1 ''There'' ''there'' ''PRON'' ''expl'' 2 (Some 1),
            mk_word 2 ''is'' ''be'' ''VERB'' ''root'' 0 None,
            mk_word 3 ''hope'' ''hope'' ''NOUN'' ''nsubj'' 2 (Some 1),
            mk_word 4 ''and'' ''and'' ''CCONJ'' ''cc'' 8 (Some 7),
            mk_word 5 ''we'' ''we'' ''PRON'' ''nsubj'' 8 (Some 7),
            mk_word 6 ''are'' ''be'' ''AUX'' ''cop'' 8 (Some 7),
            mk_word 7 ''here'' ''here'' ''ADV'' ''advmod'' 8 (Some 7),
            mk_word 8 ''now'' ''now'' ''ADV'' ''conj'' 2 (Some 1)] ! 5) = Some 7"
proof -
  have h: "list_all (\<lambda>w. case governor_word w of None \<Rightarrow> True
                   | Some g \<Rightarrow> g < length ex_there_is_hope) ex_there_is_hope
        \<and> list_all (\<lambda>w. dependency_relation w = ''advmod'' \<longrightarrow>
                           governor_word w \<noteq> None \<and> wn_lemma w \<noteq> ''be'') ex_there_is_hope
        \<and> 5 < length ex_there_is_hope \<and> wn_lemma (ex_there_is_hope ! 5) = ''be''
        \<and> dependency_relation (ex_there_is_hope ! 5) \<noteq> ''cop''
        \<and> \<not> (case filter (\<lambda>k. governor_word (ex_there_is_hope ! k) = Some 5
                                 \<and> dependency_relation (ex_there_is_hope ! k) = ''expl'')
                       [0..<length ex_there_is_hope] of
                [] \<Rightarrow> False
              | e # _ \<Rightarrow> wn_lemma (ex_there_is_hope ! e) = ''there'')
        \<and> list_all (\<lambda>w. \<not> (governor_word w = Some 5 \<and> dependency_relation w = ''expl''
                              \<and> wn_lemma w = ''be'')) ex_there_is_hope
        \<and> 7 < length ex_there_is_hope \<and> dependency_relation (ex_there_is_hope ! 7) = ''advmod''
        \<and> governor_word (ex_there_is_hope ! 7) = Some 5
        \<and> list_all (\<lambda>j. \<not> (dependency_relation (ex_there_is_hope ! j) = ''advmod''
                              \<and> governor_word (ex_there_is_hope ! j) = Some 5))
             [Suc 7..<length ex_there_is_hope]"
    by code_simp
  have a: "list_all (\<lambda>w. case governor_word w of None \<Rightarrow> True
                   | Some g \<Rightarrow> g < length ex_there_is_hope) ex_there_is_hope"
    "list_all (\<lambda>w. dependency_relation w = ''advmod'' \<longrightarrow>
                         governor_word w \<noteq> None \<and> wn_lemma w \<noteq> ''be'') ex_there_is_hope"
    "wn_lemma (ex_there_is_hope ! 5) = ''be''"
    "dependency_relation (ex_there_is_hope ! 5) = ''conj''"
    "find_governed ex_there_is_hope 5 ''expl'' = None"
    "dependency_relation (ex_there_is_hope ! 6) = ''advmod''"
    "governor_word (ex_there_is_hope ! 6) = Some 5"
    "dependency_relation (ex_there_is_hope ! 7) = ''advmod''"
    "governor_word (ex_there_is_hope ! 7) = Some 5"
    "length ex_there_is_hope = 8"
    "governor_word (ex_there_is_hope ! 0) = Some 1"
    "dependency_relation (ex_there_is_hope ! 0) = ''expl''"
    "wn_lemma (ex_there_is_hope ! 0) = ''there''"
    by code_simp+
  have ev: "fix_advmod_cop ex_there_is_hope =
       Inr [mk_word 1 ''There'' ''there'' ''PRON'' ''expl'' 2 (Some 1),
            mk_word 2 ''is'' ''be'' ''VERB'' ''root'' 0 None,
            mk_word 3 ''hope'' ''hope'' ''NOUN'' ''nsubj'' 2 (Some 1),
            mk_word 4 ''and'' ''and'' ''CCONJ'' ''cc'' 8 (Some 7),
            mk_word 5 ''we'' ''we'' ''PRON'' ''nsubj'' 8 (Some 7),
            mk_word 6 ''are'' ''be'' ''AUX'' ''cop'' 8 (Some 7),
            mk_word 7 ''here'' ''here'' ''ADV'' ''advmod'' 8 (Some 7),
            mk_word 8 ''now'' ''now'' ''ADV'' ''conj'' 2 (Some 1)]"
    by code_simp
  have "governor_word ([mk_word 1 ''There'' ''there'' ''PRON'' ''expl'' 2 (Some 1),
            mk_word 2 ''is'' ''be'' ''VERB'' ''root'' 0 None,
            mk_word 3 ''hope'' ''hope'' ''NOUN'' ''nsubj'' 2 (Some 1),
            mk_word 4 ''and'' ''and'' ''CCONJ'' ''cc'' 8 (Some 7),
            mk_word 5 ''we'' ''we'' ''PRON'' ''nsubj'' 8 (Some 7),
            mk_word 6 ''are'' ''be'' ''AUX'' ''cop'' 8 (Some 7),
            mk_word 7 ''here'' ''here'' ''ADV'' ''advmod'' 8 (Some 7),
            mk_word 8 ''now'' ''now'' ''ADV'' ''conj'' 2 (Some 1)] ! 5) = Some 7"
    using advmod_cleanup_rightmost[of ex_there_is_hope _ _ 5 7, THEN conjunct2, THEN conjunct2,
        THEN mp, OF h]
    unfolding ev by simp
  with a ev show ?thesis by simp
qed

text \<open>
  Claim C8, as stated, fails on an existential ``be'': both adverbs are labelled
  \<^verbatim>\<open>advmod\<close> and governed by ``is'', which has lemma ``be'' and is not labelled \<^verbatim>\<open>cop\<close>, and
  the cleanup leaves the sentence as it is; neither adverb becomes the head.
\<close>

theorem advmod_cleanup_existential_counterexample:
  "dependency_relation (ex_there_is_here_now ! 2) = ''advmod''
   \<and> governor_word (ex_there_is_here_now ! 2) = Some 1
   \<and> dependency_relation (ex_there_is_here_now ! 3) = ''advmod''
   \<and> governor_word (ex_there_is_here_now ! 3) = Some 1
   \<and> wn_lemma (ex_there_is_here_now ! 1) = ''be''
   \<and> dependency_relation (ex_there_is_here_now ! 1) = ''root''
   \<and> fix_advmod_cop ex_there_is_here_now = Inr ex_there_is_here_now"
  by code_simp

end
